theory Spec2Isabelle
  imports Main
begin

section \<open>Strings\<close>

text \<open>
  A Python \<open>str\<close> is a sequence of Unicode code points. A character is modelled by
  its code point, a string by the list of its code points, so that \<open>length\<close>,
  the character filter of \<open>_safe_filename\<close> and \<open>str.strip\<close> work on the same
  units as the source. \<open>ascii\<close> turns an ASCII literal into such a string.
\<close>

type_synonym uchar = nat
type_synonym ustring = "uchar list"

definition ascii :: "string \<Rightarrow> ustring" where
  "ascii s = map of_char s"

text \<open>
  \<open>str.isspace\<close> of one character, as CPython decides it: U+0009..U+000D,
  U+001C..U+0020, U+0085, U+00A0, U+1680, U+2000..U+200A, U+2028, U+2029, U+202F,
  U+205F and U+3000.
\<close>

definition is_space :: "uchar \<Rightarrow> bool" where
  "is_space c \<longleftrightarrow>
     (9 \<le> c \<and> c \<le> 13) \<or> (28 \<le> c \<and> c \<le> 32) \<or> c = 133 \<or> c = 160 \<or> c = 5760 \<or>
     (8192 \<le> c \<and> c \<le> 8202) \<or> c = 8232 \<or> c = 8233 \<or> c = 8239 \<or> c = 8287 \<or>
     c = 12288"

text \<open>\<open>s.strip()\<close>: drop the whitespace at both ends.\<close>

definition strip :: "ustring \<Rightarrow> ustring" where
  "strip s = rev (dropWhile is_space (rev (dropWhile is_space s)))"

text \<open>\<open>str(n)\<close> of a non-negative integer: its decimal digits.\<close>

fun str_nat :: "nat \<Rightarrow> ustring" where
  "str_nat n = (if n < 10 then [48 + n] else str_nat (n div 10) @ [48 + n mod 10])"

declare str_nat.simps [simp del]

section \<open>File name sanitizer\<close>

text \<open>
  The characters of the raw string \<open>r'\/:*?"<>|'\<close>, in its order: backslash (92),
  slash (47), colon (58), asterisk (42), question mark (63), double quote (34),
  less-than (60), greater-than (62), vertical bar (124).
\<close>

definition illegal_chars :: ustring where
  "illegal_chars = [92, 47, 58, 42, 63, 34, 60, 62, 124]"

text \<open>
  \<^verbatim>\<open>return ''.join(c for c in name if c not in r'\/:*?"<>|').strip() or 'body'\<close>
\<close>

definition safe_filename :: "ustring \<Rightarrow> ustring" where
  "safe_filename name =
     (let s = strip (filter (\<lambda>c. c \<notin> set illegal_chars) name)
      in if s = [] then ascii ''body'' else s)"

section \<open>Errors\<close>

text \<open>The Python exceptions that the modelled code can raise.\<close>

datatype py_error = AttributeError | OSError | KeyError

section \<open>Settings store\<close>

text \<open>
  The settings are a Python \<open>dict\<close> with string keys, a map here. What
  \<open>settings.json\<close> holds is one of three things for \<open>json.load\<close>: nothing
  it can read (no file, or text that is not JSON), a JSON object, or a JSON value that
  is not an object (a list, a number, ...).
\<close>

type_synonym 'v settings = "ustring \<rightharpoonup> 'v"

datatype 'v settings_file = Unreadable | StoredObject "'v settings" | StoredOther

datatype 'v loaded = Dict "'v settings" | NotDict

text \<open>
  \<open>_load_settings\<close>: \<open>open\<close> and \<open>json.load\<close> inside a \<open>try\<close>; every
  exception gives \<open>{}\<close>. \<open>read_fails\<close> says that \<open>open\<close> raises at this call
  although the file holds JSON (permissions, a lock).
\<close>

definition load_settings :: "bool \<Rightarrow> 'v settings_file \<Rightarrow> 'v loaded" where
  "load_settings read_fails file =
     (if read_fails then Dict Map.empty
      else case file of
        Unreadable \<Rightarrow> Dict Map.empty
      | StoredObject m \<Rightarrow> Dict m
      | StoredOther \<Rightarrow> NotDict)"

text \<open>
  What the \<open>try\<close> block of \<open>_save_settings\<close> does to the file: the dump is
  written, \<open>open(..., 'w')\<close> raises and the file stays as it was, or the file is
  truncated by \<open>open\<close> and \<open>json.dump\<close> raises before the text is complete.
\<close>

datatype write_outcome = Written | OpenFailed | DumpFailed

text \<open>
  \<open>_save_settings\<close>: load, \<open>settings.update(data)\<close> outside any \<open>try\<close> (a loaded
  value that is not a dict has no \<open>update\<close>: AttributeError), then the write, whose
  exceptions are swallowed. The result is the file afterwards.
\<close>

definition save_settings ::
  "bool \<Rightarrow> write_outcome \<Rightarrow> 'v settings_file \<Rightarrow> 'v settings \<Rightarrow> py_error + 'v settings_file"
where
  "save_settings read_fails w file data =
     (case load_settings read_fails file of
        NotDict \<Rightarrow> Inl AttributeError
      | Dict settings \<Rightarrow>
          (let settings' = settings ++ data
           in Inr (case w of
                     Written \<Rightarrow> StoredObject settings'
                   | OpenFailed \<Rightarrow> file
                   | DumpFailed \<Rightarrow> Unreadable)))"

section \<open>Dialog state\<close>

text \<open>A body of the host: its display name and its entity token.\<close>

record body =
  body_name :: ustring
  entity_token :: ustring

text \<open>One editable row of the group \<open>bodyListGroup\<close> (a string value input).\<close>

record name_field =
  field_id :: ustring
  field_label :: ustring
  field_value :: ustring

text \<open>
  The module globals and the command inputs. An input is \<open>None\<close> when
  \<open>inputs.itemById\<close> (or the cast of its result) gives \<open>None\<close>. \<open>design\<close> is the
  active design as the list of its components' body lists, \<open>None\<close> when
  \<open>Design.cast(_app.activeProduct)\<close> is \<open>None\<close>. \<open>refuses\<close> tells for which
  bodies \<open>sel.addSelection\<close> raises (suppressed or invisible bodies).
  \<open>message_boxes\<close> collects what \<open>_ui.messageBox\<close> was called with.
\<close>

datatype message = Info ustring | Trace py_error

record dialog =
  updating :: bool
  custom_names :: "ustring \<rightharpoonup> ustring"
  design :: "body list list option"
  refuses :: "body \<Rightarrow> bool"
  body_selection :: "body list option"
  select_all :: "bool option"
  body_list_group :: "name_field list option"
  quality :: "ustring option"
  output_path :: "ustring option"
  browse_folder :: "bool option"
  message_boxes :: "message list"

text \<open>\<open>_all_bodies\<close>: every body of every component, in order.\<close>

definition all_bodies :: "body list list \<Rightarrow> body list" where
  "all_bodies comps = concat comps"

text \<open>\<open>'saveName_{}'.format(i)\<close>\<close>

definition save_name_id :: "nat \<Rightarrow> ustring" where
  "save_name_id i = ascii ''saveName_'' @ str_nat i"

text \<open>
  The loop \<open>while children.count > 0: children.item(children.count - 1).deleteMe()\<close>.
\<close>

function remove_rows :: "name_field list \<Rightarrow> name_field list" where
  "remove_rows children = (if length children > 0 then remove_rows (butlast children) else children)"
  by pat_completeness auto
termination
  by (relation "measure length") auto

declare remove_rows.simps [simp del]

text \<open>
  The loop \<open>for i in range(sel.selectionCount)\<close> of \<open>_rebuild_name_list\<close>, from
  index \<open>i\<close> on: one row per selected body, the default value being the custom name
  stored for the body's token, else its sanitized display name.
\<close>

fun add_rows ::
  "(ustring \<rightharpoonup> ustring) \<Rightarrow> nat \<Rightarrow> body list \<Rightarrow> name_field list \<Rightarrow> name_field list"
where
  "add_rows names i [] children = children"
| "add_rows names i (b # bs) children =
     add_rows names (Suc i) bs
       (children @
        [\<lparr>field_id = save_name_id i, field_label = body_name b,
          field_value = (case names (entity_token b) of
                           Some v \<Rightarrow> v
                         | None \<Rightarrow> safe_filename (body_name b))\<rparr>])"

definition rebuild_name_list :: "dialog \<Rightarrow> dialog" where
  "rebuild_name_list d =
     (case body_selection d of
        None \<Rightarrow> d
      | Some sel \<Rightarrow>
          (case body_list_group d of
             None \<Rightarrow> d
           | Some children \<Rightarrow>
               d\<lparr>body_list_group :=
                    Some (add_rows (custom_names d) 0 sel (remove_rows children))\<rparr>))"

section \<open>Input-changed reactor\<close>

text \<open>
  The input whose change fired the event. The ids are those the dialog builder gave:
  \<open>selectAll\<close>, \<open>bodySelection\<close>, \<open>saveName_i\<close> (for which
  \<open>int(changed.id.split('_')[1])\<close> is \<open>i\<close>), \<open>browseFolder\<close>, and the inputs no
  branch of the handler names (\<open>quality\<close>, \<open>outputPath\<close>, \<open>bodyListGroup\<close>).
  \<open>BrowseFolder\<close> carries the user's answer to the folder dialog, should the
  handler show it: the chosen folder for \<open>DialogOK\<close>, \<open>None\<close> otherwise.
\<close>

datatype changed =
    SelectAll
  | BodySelection
  | SaveName nat
  | BrowseFolder "ustring option"
  | OtherInput

text \<open>
  The loop over \<open>_all_bodies(design)\<close> with \<open>sel.addSelection(body)\<close> in a
  \<open>try\<close> whose exceptions are passed over. The host keeps a selection free of
  duplicates: adding a selected body again changes nothing.
\<close>

fun add_all :: "(body \<Rightarrow> bool) \<Rightarrow> body list \<Rightarrow> body list \<Rightarrow> body list" where
  "add_all refuse [] sel = sel"
| "add_all refuse (b # bs) sel =
     add_all refuse bs (if refuse b \<or> b \<in> set sel then sel else sel @ [b])"

text \<open>
  The branches of the \<open>try\<close> block of \<open>_OnInputChanged.notify\<close>. Each returns
  the state it leaves and the exception it raised, if any: what was changed before an
  exception stays changed.
\<close>

definition react_select_all :: "dialog \<Rightarrow> dialog \<times> py_error option" where
  "react_select_all d =
     (case design d of
        None \<Rightarrow> (d, None)
      | Some comps \<Rightarrow>
          (case select_all d of
             None \<Rightarrow> (d, Some AttributeError)
           | Some checked \<Rightarrow>
               if checked then
                 (rebuild_name_list
                    (d\<lparr>body_selection :=
                         map_option (add_all (refuses d) (all_bodies comps)) (body_selection d)\<rparr>),
                  None)
               else
                 (case body_selection d of
                    None \<Rightarrow> (d, Some AttributeError)
                  | Some sel \<Rightarrow> (rebuild_name_list (d\<lparr>body_selection := Some []\<rparr>), None))))"

definition react_body_selection :: "dialog \<Rightarrow> dialog \<times> py_error option" where
  "react_body_selection d =
     (case design d of
        None \<Rightarrow> (rebuild_name_list d, None)
      | Some comps \<Rightarrow>
          (let total = length (all_bodies comps)
           in if total > 0 then
                (case body_selection d of
                   None \<Rightarrow> (d, Some AttributeError)
                 | Some sel \<Rightarrow>
                     (case select_all d of
                        None \<Rightarrow> (d, Some AttributeError)
                      | Some checked \<Rightarrow>
                          (rebuild_name_list (d\<lparr>select_all := Some (length sel = total)\<rparr>),
                           None)))
              else
                (case select_all d of
                   None \<Rightarrow> (d, Some AttributeError)
                 | Some checked \<Rightarrow> (rebuild_name_list (d\<lparr>select_all := Some False\<rparr>), None))))"

definition react_save_name :: "nat \<Rightarrow> dialog \<Rightarrow> dialog \<times> py_error option" where
  "react_save_name idx d =
     (case body_selection d of
        None \<Rightarrow> (d, None)
      | Some sel \<Rightarrow>
          if idx < length sel then
            (case find (\<lambda>f. field_id f = save_name_id idx) (case body_list_group d of None \<Rightarrow> [] | Some children \<Rightarrow> children) of
               None \<Rightarrow> (d, Some AttributeError)
             | Some changed_field \<Rightarrow>
                 (d\<lparr>custom_names :=
                      (custom_names d)(entity_token (sel ! idx) \<mapsto> field_value changed_field)\<rparr>,
                  None))
          else (d, None))"

definition react_browse_folder :: "ustring option \<Rightarrow> dialog \<Rightarrow> dialog \<times> py_error option" where
  "react_browse_folder answer d =
     (case browse_folder d of
        None \<Rightarrow> (d, Some AttributeError)
      | Some pressed \<Rightarrow>
          if pressed then
            (case output_path d of
               None \<Rightarrow> (d, Some AttributeError)
             | Some p \<Rightarrow>
                 (d\<lparr>output_path := Some (case answer of None \<Rightarrow> p | Some folder \<Rightarrow> folder),
                     browse_folder := Some False\<rparr>,
                  None))
          else (d, None))"

fun react :: "changed \<Rightarrow> dialog \<Rightarrow> dialog \<times> py_error option" where
  "react SelectAll d = react_select_all d"
| "react BodySelection d = react_body_selection d"
| "react (SaveName idx) d = react_save_name idx d"
| "react (BrowseFolder answer) d = react_browse_folder answer d"
| "react OtherInput d = (d, None)"

text \<open>
  \<open>_OnInputChanged.notify\<close>: return at once when \<open>_updating\<close> is set; else set
  it, run the reaction, show the traceback of an exception in a message box
  (\<open>except Exception\<close>), and clear \<open>_updating\<close> in the \<open>finally\<close> clause.
\<close>

definition on_input_changed :: "changed \<Rightarrow> dialog \<Rightarrow> dialog" where
  "on_input_changed ev d =
     (if updating d then d
      else
        (case react ev (d\<lparr>updating := True\<rparr>) of
           (d', None) \<Rightarrow> d'\<lparr>updating := False\<rparr>
         | (d', Some e) \<Rightarrow>
             d'\<lparr>message_boxes := message_boxes d' @ [Trace e], updating := False\<rparr>))"

text \<open>The host delivering a sequence of input changes, one after the other.\<close>

fun input_changes :: "changed list \<Rightarrow> dialog \<Rightarrow> dialog" where
  "input_changes [] d = d"
| "input_changes (ev # evs) d = input_changes evs (on_input_changed ev d)"

section \<open>Validation gate\<close>

text \<open>
  \<open>_OnValidateInputs.notify\<close>: \<open>sel.selectionCount > 0 and
  len(path.value.strip()) > 0\<close>, and \<open>False\<close> for any exception (an input that is
  \<open>None\<close>). The result is \<open>args.areInputsValid\<close>.
\<close>

definition on_validate_inputs :: "dialog \<Rightarrow> bool" where
  "on_validate_inputs d =
     (case body_selection d of
        None \<Rightarrow> False
      | Some sel \<Rightarrow>
          if length sel > 0 then
            (case output_path d of
               None \<Rightarrow> False
             | Some p \<Rightarrow> length (strip p) > 0)
          else False)"

section \<open>User actions\<close>

text \<open>
  A user action changes an input in the host, which then fires the input-changed
  event for it: picking one more body in the viewport, and setting the select-all
  check box.
\<close>

definition user_selects :: "body \<Rightarrow> dialog \<Rightarrow> dialog" where
  "user_selects b d =
     on_input_changed BodySelection
       (d\<lparr>body_selection := map_option (\<lambda>sel. sel @ [b]) (body_selection d)\<rparr>)"

fun user_selects_each :: "body list \<Rightarrow> dialog \<Rightarrow> dialog" where
  "user_selects_each [] d = d"
| "user_selects_each (b # bs) d = user_selects_each bs (user_selects b d)"

definition user_sets_select_all :: "bool \<Rightarrow> dialog \<Rightarrow> dialog" where
  "user_sets_select_all v d = on_input_changed SelectAll (d\<lparr>select_all := Some v\<rparr>)"

section \<open>Export orchestrator\<close>

datatype mesh_refinement = MeshRefinementHigh | MeshRefinementMedium | MeshRefinementLow

text \<open>\<open>QUALITY.get(q_dd.selectedItem.name, QUALITY['High'])\<close>\<close>

definition quality_of :: "ustring \<Rightarrow> mesh_refinement" where
  "quality_of nm =
     (if nm = ascii ''High'' then MeshRefinementHigh
      else if nm = ascii ''Medium'' then MeshRefinementMedium
      else if nm = ascii ''Low'' then MeshRefinementLow
      else MeshRefinementHigh)"

text \<open>
  What the execution meets outside the program: \<open>os.path.join\<close> of the platform,
  whether \<open>os.makedirs\<close> raises, how the settings file reads and writes, for which
  paths \<open>os.remove\<close> raises OSError, the value of \<open>prog.wasCancelled\<close> when
  iteration \<open>i\<close> of the export loop reads it, and the text \<open>str(ex)\<close> of the
  \<open>Exception\<close> that the export of job \<open>i\<close> raises (\<open>None\<close> when it succeeds).
  The progress dialog and \<open>adsk.doEvents()\<close> act on the program through that flag
  only.
\<close>

record env =
  path_join :: "ustring \<Rightarrow> ustring \<Rightarrow> ustring"
  makedirs_fails :: bool
  settings_read_fails :: bool
  settings_write :: write_outcome
  remove_fails :: "ustring \<Rightarrow> bool"
  was_cancelled :: "nat \<Rightarrow> bool"
  export_raises :: "nat \<Rightarrow> ustring option"

text \<open>The file operations and exports of a run, in the order they happen.\<close>

datatype effect =
    Removed ustring
  | RemoveFailed ustring
  | Exported body ustring mesh_refinement
  | ExportFailed body ustring mesh_refinement ustring

text \<open>
  The raw name of body \<open>i\<close>: the value of the row \<open>saveName_i\<close> when the group
  has children, \<open>i\<close> is below their count and the row is found, else the body's
  display name.
\<close>

definition raw_name :: "name_field list option \<Rightarrow> nat \<Rightarrow> body \<Rightarrow> ustring" where
  "raw_name children i b =
     (case children of
        None \<Rightarrow> body_name b
      | Some rows \<Rightarrow>
          if i < length rows then
            (case find (\<lambda>f. field_id f = save_name_id i) rows of
               None \<Rightarrow> body_name b
             | Some inp \<Rightarrow> field_value inp)
          else body_name b)"

fun raw_names :: "name_field list option \<Rightarrow> nat \<Rightarrow> body list \<Rightarrow> ustring list" where
  "raw_names children i [] = []"
| "raw_names children i (b # bs) =
     safe_filename (raw_name children i b) # raw_names children (Suc i) bs"

text \<open>\<open>d.get(k, 0)\<close> on a dictionary of counters.\<close>

definition get0 :: "(ustring \<rightharpoonup> nat) \<Rightarrow> ustring \<Rightarrow> nat" where
  "get0 d k = (case d k of None \<Rightarrow> 0 | Some c \<Rightarrow> c)"

text \<open>\<open>for n in raw_names: name_count[n] = name_count.get(n, 0) + 1\<close>\<close>

fun count_names :: "ustring list \<Rightarrow> (ustring \<rightharpoonup> nat) \<Rightarrow> (ustring \<rightharpoonup> nat)" where
  "count_names [] name_count = name_count"
| "count_names (n # ns) name_count = count_names ns (name_count(n \<mapsto> get0 name_count n + 1))"

text \<open>
  The loop that numbers the names: \<open>idx = name_idx.get(n, 0) + 1\<close>, then
  \<open>'{} ({})'.format(n, idx)\<close> for a name counted more than once. \<open>name_count[n]\<close>
  raises KeyError for a name the dictionary lacks. The result holds
  \<open>fname + '.stl'\<close> for each name.
\<close>

fun file_names ::
  "(ustring \<rightharpoonup> nat) \<Rightarrow> ustring list \<Rightarrow> (ustring \<rightharpoonup> nat) \<Rightarrow> py_error + ustring list"
where
  "file_names name_count [] name_idx = Inr []"
| "file_names name_count (n # ns) name_idx =
     (let idx = get0 name_idx n + 1
      in case name_count n of
           None \<Rightarrow> Inl KeyError
         | Some c \<Rightarrow>
             (let fname = (if c > 1 then n @ ascii '' ('' @ str_nat idx @ ascii '')'' else n)
              in case file_names name_count ns (name_idx(n \<mapsto> idx)) of
                   Inl e \<Rightarrow> Inl e
                 | Inr rest \<Rightarrow> Inr ((fname @ ascii ''.stl'') # rest)))"

text \<open>The destination file names \<open>fname + '.stl'\<close> of a list of raw names.\<close>

definition destination_names :: "ustring list \<Rightarrow> py_error + ustring list" where
  "destination_names names = file_names (count_names names Map.empty) names Map.empty"

text \<open>\<open>export_jobs\<close>: each body with \<open>os.path.join(output_dir, fname + '.stl')\<close>.\<close>

definition export_jobs ::
  "(ustring \<Rightarrow> ustring \<Rightarrow> ustring) \<Rightarrow> ustring \<Rightarrow> name_field list option \<Rightarrow> body list \<Rightarrow>
   py_error + (body \<times> ustring) list"
where
  "export_jobs join output_dir children bodies =
     (case destination_names (raw_names children 0 bodies) of
        Inl e \<Rightarrow> Inl e
      | Inr fnames \<Rightarrow> Inr (zip bodies (map (join output_dir) fnames)))"

text \<open>
  The counters of the two phases, with the files that exist and the effects so far;
  \<open>new_batch\<close> is their state before phase 1.
\<close>

record batch =
  overwritten :: nat
  exported :: nat
  errors :: "ustring list"
  cancelled :: bool
  files :: "ustring set"
  effects :: "effect list"

text \<open>
  Phase 1: for each job whose path exists, \<open>os.remove\<close>; \<open>overwritten += 1\<close> after
  a removal that did not raise, \<open>pass\<close> for an OSError.
\<close>

fun remove_existing :: "(ustring \<Rightarrow> bool) \<Rightarrow> (body \<times> ustring) list \<Rightarrow> batch \<Rightarrow> batch" where
  "remove_existing fails [] st = st"
| "remove_existing fails ((b, fpath) # jobs) st =
     remove_existing fails jobs
       (if fpath \<in> files st then
          (if fails fpath then st\<lparr>effects := effects st @ [RemoveFailed fpath]\<rparr>
           else st\<lparr>overwritten := overwritten st + 1,
                   files := files st - {fpath},
                   effects := effects st @ [Removed fpath]\<rparr>)
        else st)"

text \<open>
  Phase 2, from job \<open>i\<close> on: \<open>break\<close> with \<open>cancelled = True\<close> when
  \<open>prog.wasCancelled\<close> is set, else export the job; \<open>exported += 1\<close> after an
  export that did not raise, and \<open>'{}: {}'.format(body.name, ex)\<close> appended to
  \<open>errors\<close> for one that did. \<open>export_mgr.execute(opts)\<close> writes the
  destination file when it does not raise; an export that raises is taken to leave
  the files as they are.
\<close>

fun export_all ::
  "env \<Rightarrow> mesh_refinement \<Rightarrow> nat \<Rightarrow> (body \<times> ustring) list \<Rightarrow> batch \<Rightarrow> batch"
where
  "export_all e q i [] st = st"
| "export_all e q i ((b, fpath) # jobs) st =
     (if was_cancelled e i then st\<lparr>cancelled := True\<rparr>
      else
        (case export_raises e i of
           None \<Rightarrow>
             export_all e q (Suc i) jobs
               (st\<lparr>exported := exported st + 1,
                   files := insert fpath (files st),
                   effects := effects st @ [Exported b fpath q]\<rparr>)
         | Some ex \<Rightarrow>
             export_all e q (Suc i) jobs
               (st\<lparr>errors := errors st @ [body_name b @ ascii '': '' @ ex],
                   effects := effects st @ [ExportFailed b fpath q ex]\<rparr>)))"

definition new_batch :: "ustring set \<Rightarrow> batch" where
  "new_batch fs =
     \<lparr>overwritten = 0, exported = 0, errors = [], cancelled = False, files = fs, effects = []\<rparr>"

definition run_batch ::
  "env \<Rightarrow> mesh_refinement \<Rightarrow> (body \<times> ustring) list \<Rightarrow> ustring set \<Rightarrow> batch"
where
  "run_batch e q jobs fs =
     export_all e q 0 jobs (remove_existing (remove_fails e) jobs (new_batch fs))"

text \<open>The list \<open>msg\<close> of the summary; U+2022 is the bullet.\<close>

definition summary_lines :: "batch \<Rightarrow> ustring \<Rightarrow> ustring list" where
  "summary_lines r output_dir =
     [ascii ''Exported: '' @ str_nat (exported r)]
     @ (if overwritten r \<noteq> 0 then [ascii ''Overwritten: '' @ str_nat (overwritten r)] else [])
     @ (if errors r \<noteq> [] then
          (ascii ''Errors:   '' @ str_nat (length (errors r)))
          # map (\<lambda>err. [32, 32, 8226, 32] @ err) (errors r)
        else [])
     @ (if cancelled r then [10 # ascii ''Export cancelled by user.''] else [])
     @ [10 # ascii ''Location: '' @ output_dir]"

text \<open>\<open>'\n'.join(msg)\<close>\<close>

fun join_lines :: "ustring list \<Rightarrow> ustring" where
  "join_lines [] = []"
| "join_lines [l] = l"
| "join_lines (l # ls) = l @ [10] @ join_lines ls"

text \<open>The files and the settings file outside the program, and the effects on them.\<close>

record world =
  existing :: "ustring set"
  settings_json :: "ustring settings_file"
  trace :: "effect list"

text \<open>
  \<open>_OnExecute.notify\<close>: the message box it shows and the world it leaves. Every
  exception of the body reaches the outer \<open>except\<close>, which shows
  \<open>'Export failed:'\<close> with the traceback.
\<close>

definition on_execute :: "env \<Rightarrow> dialog \<Rightarrow> world \<Rightarrow> message \<times> world" where
  "on_execute e d w =
     (case body_selection d of
        None \<Rightarrow> (Trace AttributeError, w)
      | Some bodies \<Rightarrow>
     (case quality d of
        None \<Rightarrow> (Trace AttributeError, w)
      | Some qname \<Rightarrow>
     (case output_path d of
        None \<Rightarrow> (Trace AttributeError, w)
      | Some path \<Rightarrow>
          (let output_dir = strip path
           in if bodies = [] then (Info (ascii ''No bodies selected.''), w)
              else if makedirs_fails e \<or> output_dir = [] then (Trace OSError, w)
              else
                (case save_settings (settings_read_fails e) (settings_write e)
                        (settings_json w) [ascii ''outputPath'' \<mapsto> output_dir] of
                   Inl err \<Rightarrow> (Trace err, w)
                 | Inr file' \<Rightarrow>
                     (case design d of
                        None \<Rightarrow> (Trace AttributeError, w\<lparr>settings_json := file'\<rparr>)
                      | Some comps \<Rightarrow>
                          (case export_jobs (path_join e) output_dir (body_list_group d) bodies of
                             Inl err \<Rightarrow> (Trace err, w\<lparr>settings_json := file'\<rparr>)
                           | Inr jobs \<Rightarrow>
                               (let r = run_batch e (quality_of qname) jobs (existing w)
                                in (Info (join_lines (summary_lines r output_dir)),
                                    \<lparr>existing = files r, settings_json = file',
                                     trace = trace w @ effects r\<rparr>)))))))))"

section \<open>Notions of the specification\<close>

text \<open>An effect of the cleanup phase, as opposed to one of the export phase.\<close>

fun is_removal :: "effect \<Rightarrow> bool" where
  "is_removal (Removed p) = True"
| "is_removal (RemoveFailed p) = True"
| "is_removal (Exported b p q) = False"
| "is_removal (ExportFailed b p q ex) = False"

text \<open>The files that the exports among some effects wrote.\<close>

fun written :: "effect list \<Rightarrow> ustring set" where
  "written [] = {}"
| "written (Exported b p q # xs) = insert p (written xs)"
| "written (x # xs) = written xs"

text \<open>
  The destination the specification gives to an occurrence of a raw name \<open>n\<close>:
  \<open>n (k).stl\<close> for occurrence number \<open>k\<close> of a name that occurs \<open>tot > 1\<close>
  times in the batch, \<open>n.stl\<close> for a name that occurs once.
\<close>

definition expected_name :: "nat \<Rightarrow> nat \<Rightarrow> ustring \<Rightarrow> ustring" where
  "expected_name tot k n =
     (if tot > 1 then n @ ascii '' ('' @ str_nat k @ ascii '')'' else n) @ ascii ''.stl''"

section \<open>Example inputs\<close>

definition body_part1 :: body where
  "body_part1 = \<lparr>body_name = ascii ''Part'', entity_token = ascii ''t1''\<rparr>"

definition body_part2 :: body where
  "body_part2 = \<lparr>body_name = ascii ''Part'', entity_token = ascii ''t2''\<rparr>"

definition body_cyl :: body where
  "body_cyl = \<lparr>body_name = ascii ''Cylinder1'', entity_token = ascii ''t3''\<rparr>"

text \<open>A freshly opened dialog on a design of two components with three bodies.\<close>

definition fresh_dialog :: dialog where
  "fresh_dialog =
     \<lparr>updating = False, custom_names = Map.empty,
      design = Some [[body_part1, body_part2], [body_cyl]],
      refuses = (\<lambda>b. False), body_selection = Some [], select_all = Some False,
      body_list_group = Some [], quality = Some (ascii ''High''),
      output_path = Some (ascii ''/tmp/out''), browse_folder = Some False,
      message_boxes = []\<rparr>"

text \<open>The same dialog without its selection input.\<close>

definition broken_dialog :: dialog where
  "broken_dialog = fresh_dialog\<lparr>body_selection := None\<rparr>"

definition body_copy :: body where
  "body_copy = \<lparr>body_name = ascii ''Part (1)'', entity_token = ascii ''t4''\<rparr>"

definition body_lid :: body where
  "body_lid = \<lparr>body_name = ascii ''Lid'', entity_token = ascii ''t5''\<rparr>"

text \<open>An environment in which nothing fails and nobody cancels.\<close>

definition calm_env :: env where
  "calm_env =
     \<lparr>path_join = (\<lambda>a b. a @ [47] @ b), makedirs_fails = False,
      settings_read_fails = False, settings_write = Written,
      remove_fails = (\<lambda>p. False), was_cancelled = (\<lambda>i. False),
      export_raises = (\<lambda>i. None)\<rparr>"

text \<open>Environments of the scenarios: a file that cannot be removed, a user who
  cancels after two jobs, an export that raises.\<close>

definition locked_env :: env where
  "locked_env = calm_env\<lparr>remove_fails := (\<lambda>p. p = ascii ''/tmp/out/Part (2).stl'')\<rparr>"

definition cancelling_env :: env where
  "cancelling_env = calm_env\<lparr>was_cancelled := (\<lambda>i. 2 \<le> i)\<rparr>"

definition failing_env :: env where
  "failing_env =
     calm_env\<lparr>export_raises := (\<lambda>i. if i = 1 then Some (ascii ''disk full'') else None)\<rparr>"

definition three_jobs :: "(body \<times> ustring) list" where
  "three_jobs =
     [(body_part1, ascii ''/tmp/out/Part (1).stl''),
      (body_part2, ascii ''/tmp/out/Part (2).stl''),
      (body_cyl, ascii ''/tmp/out/Cylinder1.stl'')]"

definition five_jobs :: "(body \<times> ustring) list" where
  "five_jobs =
     three_jobs @
     [(body_copy, ascii ''/tmp/out/Copy.stl''), (body_lid, ascii ''/tmp/out/Lid.stl'')]"

text \<open>The batches of the scenarios.\<close>

definition locked_run :: batch where
  "locked_run =
     run_batch locked_env MeshRefinementHigh three_jobs
       {ascii ''/tmp/out/Part (1).stl'', ascii ''/tmp/out/Part (2).stl'',
        ascii ''/tmp/out/notes.txt''}"

definition stuck_run :: batch where
  "stuck_run =
     run_batch locked_env MeshRefinementHigh
       [(body_part2, ascii ''/tmp/out/Part (2).stl'')] {ascii ''/tmp/out/Part (2).stl''}"

definition cancelled_run :: batch where
  "cancelled_run = run_batch cancelling_env MeshRefinementHigh five_jobs {}"

definition failed_run :: batch where
  "failed_run = run_batch failing_env MeshRefinementHigh three_jobs {}"

section \<open>Properties of the sanitizer\<close>

lemma ascii_body: "ascii ''body'' = [98, 111, 100, 121]"
  by (simp add: ascii_def)

lemma set_strip_subset: "set (strip s) \<subseteq> set s"
proof -
  have "set (strip s) \<subseteq> set (dropWhile is_space s)"
    unfolding strip_def using set_dropWhileD by fastforce
  also have "\<dots> \<subseteq> set s"
    using set_dropWhileD by fastforce
  finally show ?thesis .
qed

lemma strip_no_leading: "strip s \<noteq> [] \<Longrightarrow> \<not> is_space (hd (strip s))"
proof -
  assume ne: "strip s \<noteq> []"
  let ?d = "dropWhile is_space s"
  have "\<exists>ys. ?d = strip s @ ys"
  proof -
    have "rev ?d = takeWhile is_space (rev ?d) @ dropWhile is_space (rev ?d)"
      by simp
    then have "?d = rev (dropWhile is_space (rev ?d)) @ rev (takeWhile is_space (rev ?d))"
      by (metis rev_append rev_rev_ident)
    then show ?thesis unfolding strip_def by blast
  qed
  then obtain ys where d: "?d = strip s @ ys" ..
  with ne have "?d \<noteq> []" and "hd ?d = hd (strip s)" by auto
  moreover from \<open>?d \<noteq> []\<close> have "\<not> is_space (hd ?d)" by (rule hd_dropWhile)
  ultimately show ?thesis by simp
qed

lemma strip_no_trailing: "strip s \<noteq> [] \<Longrightarrow> \<not> is_space (last (strip s))"
proof -
  assume ne: "strip s \<noteq> []"
  let ?r = "dropWhile is_space (rev (dropWhile is_space s))"
  from ne have "?r \<noteq> []" by (simp add: strip_def)
  then have "\<not> is_space (hd ?r)" by (rule hd_dropWhile)
  moreover have "last (strip s) = hd ?r"
    using \<open>?r \<noteq> []\<close> by (simp add: strip_def last_rev)
  ultimately show ?thesis by simp
qed

lemma strip_all_space: "\<forall>c\<in>set s. is_space c \<Longrightarrow> strip s = []"
proof -
  assume "\<forall>c\<in>set s. is_space c"
  then have "dropWhile is_space s = []" by simp
  then show ?thesis by (simp only: strip_def rev.simps dropWhile.simps)
qed

lemma body_not_space: "c \<in> set (ascii ''body'') \<Longrightarrow> \<not> is_space c"
  by (auto simp: ascii_body is_space_def)

lemma body_not_illegal: "c \<in> set (ascii ''body'') \<Longrightarrow> c \<notin> set illegal_chars"
  by (auto simp: ascii_body illegal_chars_def)

lemma safe_filename_legal: "c \<in> set (safe_filename name) \<Longrightarrow> c \<notin> set illegal_chars"
proof -
  assume c: "c \<in> set (safe_filename name)"
  let ?s = "strip (filter (\<lambda>c. c \<notin> set illegal_chars) name)"
  show ?thesis
  proof (cases "?s = []")
    case True
    with c have "c \<in> set (ascii ''body'')" by (simp add: safe_filename_def)
    then show ?thesis by (rule body_not_illegal)
  next
    case False
    with c have "c \<in> set ?s" by (simp add: safe_filename_def)
    with set_strip_subset have "c \<in> set (filter (\<lambda>c. c \<notin> set illegal_chars) name)"
      by blast
    then show ?thesis by simp
  qed
qed

lemma safe_filename_nonempty: "safe_filename name \<noteq> []"
  by (simp add: safe_filename_def Let_def ascii_body)

lemma safe_filename_fallback:
  assumes "\<forall>c\<in>set name. c \<in> set illegal_chars \<or> is_space c"
  shows "safe_filename name = ascii ''body''"
proof -
  from assms have "\<forall>c\<in>set (filter (\<lambda>c. c \<notin> set illegal_chars) name). is_space c"
    by auto
  then have "strip (filter (\<lambda>c. c \<notin> set illegal_chars) name) = []"
    by (rule strip_all_space)
  then show ?thesis by (simp add: safe_filename_def)
qed

text \<open>
  C3. For every input string the sanitized file name contains none of the
  characters \<open>\ / : * ? " < > |\<close>, and an input made only of those characters
  is replaced by the fallback literal \<open>body\<close>.
\<close>

theorem C3_sanitized_has_no_illegal_character:
  "set (safe_filename name) \<inter> set illegal_chars = {} \<and>
   (set name \<subseteq> set illegal_chars \<longrightarrow> safe_filename name = ascii ''body'')"
proof
  show "set (safe_filename name) \<inter> set illegal_chars = {}"
    using safe_filename_legal by blast
  show "set name \<subseteq> set illegal_chars \<longrightarrow> safe_filename name = ascii ''body''"
  proof
    assume "set name \<subseteq> set illegal_chars"
    then have "\<forall>c\<in>set name. c \<in> set illegal_chars \<or> is_space c" by blast
    then show "safe_filename name = ascii ''body''" by (rule safe_filename_fallback)
  qed
qed

theorem C3_witness:
  "set (ascii ''*?:'') \<subseteq> set illegal_chars \<and> safe_filename (ascii ''*?:'') = ascii ''body''
   \<and> set (safe_filename (ascii ''a/b'')) \<inter> set illegal_chars = {}"
proof -
  have h: "set (ascii ''*?:'') \<subseteq> set illegal_chars"
    by (simp add: ascii_def illegal_chars_def)
  from C3_sanitized_has_no_illegal_character [of "ascii ''*?:''"]
    C3_sanitized_has_no_illegal_character [of "ascii ''a/b''"] h
  show ?thesis by blast
qed

text \<open>
  C10. The sanitizer also strips leading and trailing whitespace: its result is
  never empty and neither starts nor ends with a whitespace character; an input
  whose characters are all illegal or whitespace (the empty string included) gives
  the literal \<open>body\<close>.
\<close>

theorem C10_sanitized_is_stripped_and_nonempty:
  "safe_filename name \<noteq> [] \<and>
   \<not> is_space (hd (safe_filename name)) \<and>
   \<not> is_space (last (safe_filename name)) \<and>
   ((\<forall>c\<in>set name. c \<in> set illegal_chars \<or> is_space c) \<longrightarrow>
      safe_filename name = ascii ''body'') \<and>
   safe_filename [] = ascii ''body''"
proof -
  let ?s = "strip (filter (\<lambda>c. c \<notin> set illegal_chars) name)"
  have a: "safe_filename name \<noteq> []" by (rule safe_filename_nonempty)
  have b: "\<not> is_space (hd (safe_filename name))"
  proof (cases "?s = []")
    case True
    then have "safe_filename name = ascii ''body''" by (simp add: safe_filename_def)
    then show ?thesis by (simp add: ascii_body is_space_def)
  next
    case False
    then have "safe_filename name = ?s" by (simp add: safe_filename_def)
    with False strip_no_leading show ?thesis by simp
  qed
  have c: "\<not> is_space (last (safe_filename name))"
  proof (cases "?s = []")
    case True
    then have "safe_filename name = ascii ''body''" by (simp add: safe_filename_def)
    then show ?thesis by (simp add: ascii_body is_space_def)
  next
    case False
    then have "safe_filename name = ?s" by (simp add: safe_filename_def)
    with False strip_no_trailing show ?thesis by simp
  qed
  have d: "(\<forall>c\<in>set name. c \<in> set illegal_chars \<or> is_space c) \<longrightarrow>
      safe_filename name = ascii ''body''"
    using safe_filename_fallback by blast
  have e: "safe_filename [] = ascii ''body''"
    by (rule safe_filename_fallback) simp
  from a b c d e show ?thesis by blast
qed

theorem C10_witness:
  "list_all (\<lambda>c. c \<in> set illegal_chars \<or> is_space c) (ascii '' :* '')
   \<and> safe_filename (ascii '' :* '') = ascii ''body''
   \<and> safe_filename (ascii '' a:b '') = ascii ''ab''"
proof -
  have h: "\<forall>c\<in>set (ascii '' :* ''). c \<in> set illegal_chars \<or> is_space c"
    by (simp add: ascii_def illegal_chars_def is_space_def)
  have e: "safe_filename (ascii '' a:b '') = ascii ''ab''"
    by (simp add: safe_filename_def strip_def ascii_def illegal_chars_def is_space_def)
  from C10_sanitized_is_stripped_and_nonempty [of "ascii '' :* ''"] h e show ?thesis
    unfolding list_all_iff by blast
qed

section \<open>Properties of the settings store\<close>

text \<open>
  C7. Saving \<open>{outputPath: a}\<close> and then \<open>{other: b}\<close>, with the reads and writes
  succeeding, leaves a store that holds both keys, each with the value last written
  for it. The store is a flat key-value mapping or unreadable at the start: a file
  holding JSON that is not an object makes \<open>_save_settings\<close> raise.
\<close>

theorem C7_save_merges_into_store:
  assumes "f0 \<noteq> StoredOther"
  shows "\<exists>f1 f2 m.
     save_settings False Written f0 [ascii ''outputPath'' \<mapsto> a] = Inr f1 \<and>
     save_settings False Written f1 [ascii ''other'' \<mapsto> b] = Inr f2 \<and>
     load_settings False f2 = Dict m \<and>
     m (ascii ''outputPath'') = Some a \<and> m (ascii ''other'') = Some b"
proof -
  have ne: "ascii ''outputPath'' \<noteq> ascii ''other''" by (simp add: ascii_def)
  from assms show ?thesis
    by (cases f0) (simp_all add: save_settings_def load_settings_def ne)
qed

theorem C7_witness:
  "(Unreadable :: ustring settings_file) \<noteq> StoredOther \<and>
   (\<exists>f1 f2 m.
     save_settings False Written (Unreadable :: ustring settings_file)
       [ascii ''outputPath'' \<mapsto> ascii ''/a''] = Inr f1 \<and>
     save_settings False Written f1 [ascii ''other'' \<mapsto> ascii ''b''] = Inr f2 \<and>
     load_settings False f2 = Dict m \<and>
     m (ascii ''outputPath'') = Some (ascii ''/a'') \<and> m (ascii ''other'') = Some (ascii ''b''))"
proof -
  have h: "(Unreadable :: ustring settings_file) \<noteq> StoredOther" by simp
  from C7_save_merges_into_store [OF h, of "ascii ''/a''" "ascii ''b''"] h
  show ?thesis by blast
qed

section \<open>Properties of the validation gate\<close>

text \<open>
  C6. The validation gate reports the inputs valid exactly when the selection holds at
  least one body and the text of the output path is non-empty after trimming. The
  gate reads nothing but these two inputs: no file system takes part in it.
\<close>

theorem C6_valid_iff_selection_and_path:
  "on_validate_inputs d \<longleftrightarrow>
     (\<exists>sel p. body_selection d = Some sel \<and> output_path d = Some p \<and>
        0 < length sel \<and> 0 < length (strip p))"
  by (auto simp: on_validate_inputs_def split: option.splits)

section \<open>Properties of the input-changed reactor\<close>

lemma rebuild_fields [simp]:
  "updating (rebuild_name_list d) = updating d"
  "design (rebuild_name_list d) = design d"
  "body_selection (rebuild_name_list d) = body_selection d"
  "select_all (rebuild_name_list d) = select_all d"
  "message_boxes (rebuild_name_list d) = message_boxes d"
  by (simp_all add: rebuild_name_list_def split: option.splits)

lemma body_selection_changed:
  assumes "\<not> updating d" "design d = Some comps" "body_selection d = Some sel"
    "select_all d = Some c"
  shows "select_all (on_input_changed BodySelection d) =
           Some (length sel = length (all_bodies comps) \<and> 0 < length (all_bodies comps))"
    and "body_selection (on_input_changed BodySelection d) = Some sel"
    and "design (on_input_changed BodySelection d) = Some comps"
    and "\<not> updating (on_input_changed BodySelection d)"
  using assms by (auto simp: on_input_changed_def react_body_selection_def Let_def)

lemma user_selects_fields:
  assumes "\<not> updating d" "design d = Some comps" "body_selection d = Some sel"
    "select_all d = Some c"
  shows "select_all (user_selects b d) =
           Some (length (sel @ [b]) = length (all_bodies comps) \<and> 0 < length (all_bodies comps))"
    and "body_selection (user_selects b d) = Some (sel @ [b])"
    and "design (user_selects b d) = Some comps"
    and "\<not> updating (user_selects b d)"
  unfolding user_selects_def
  using assms by (simp_all add: body_selection_changed)

lemma user_selects_each_fields:
  assumes "\<not> updating d" "design d = Some comps" "body_selection d = Some sel"
    "select_all d = Some c" "picked \<noteq> []"
  shows "select_all (user_selects_each picked d) =
           Some (length (sel @ picked) = length (all_bodies comps) \<and> 0 < length (all_bodies comps))"
  using assms
proof (induction picked arbitrary: d sel c)
  case Nil
  then show ?case by simp
next
  case (Cons b bs)
  note f = user_selects_fields [OF Cons.prems(1-4), of b]
  show ?case
  proof (cases "bs = []")
    case True
    then show ?thesis using f(1) by simp
  next
    case False
    from Cons.IH [OF f(4) f(3) f(2) f(1) False]
    show ?thesis by simp
  qed
qed

lemma select_all_clicked:
  assumes "\<not> updating d" "design d = Some comps"
  shows "select_all (user_sets_select_all True d) = Some True"
  using assms
  by (simp add: user_sets_select_all_def on_input_changed_def react_select_all_def)

lemma guard_cleared: "\<not> updating d \<Longrightarrow> \<not> updating (on_input_changed ev d)"
  by (simp add: on_input_changed_def split: prod.splits option.splits)

lemma guard_cleared_run: "\<not> updating d \<Longrightarrow> \<not> updating (input_changes evs d)"
  by (induction evs arbitrary: d) (simp_all add: guard_cleared)

text \<open>
  C8. When the handler reacts to a change of the body selection in an active design,
  it sets the select-all check box to checked exactly when the selection count equals
  the number of bodies of the design and that number is positive. So in a design with
  at least one body, picking every body one by one, from an empty selection, leaves
  the box checked, as setting select-all does.
\<close>

theorem C8_select_all_follows_selection:
  assumes "\<not> updating d" "design d = Some comps" "body_selection d = Some sel"
    "select_all d = Some c"
  shows "select_all (on_input_changed BodySelection d) =
           Some (length sel = length (all_bodies comps) \<and> 0 < length (all_bodies comps)) \<and>
         (sel = [] \<and> all_bodies comps \<noteq> [] \<and> set picked = set (all_bodies comps) \<and>
          length picked = length (all_bodies comps) \<longrightarrow>
            select_all (user_selects_each picked d) = Some True \<and>
            select_all (user_selects_each picked d) = select_all (user_sets_select_all True d))"
proof (intro conjI impI)
  show "select_all (on_input_changed BodySelection d) =
           Some (length sel = length (all_bodies comps) \<and> 0 < length (all_bodies comps))"
    using assms by (rule body_selection_changed(1))
next
  assume h: "sel = [] \<and> all_bodies comps \<noteq> [] \<and> set picked = set (all_bodies comps) \<and>
          length picked = length (all_bodies comps)"
  then have ne: "picked \<noteq> []" by auto
  from user_selects_each_fields [OF assms ne] h
  show t: "select_all (user_selects_each picked d) = Some True" by simp
  from t select_all_clicked [OF assms(1,2)]
  show "select_all (user_selects_each picked d) = select_all (user_sets_select_all True d)"
    by simp
qed

theorem C8_witness:
  "\<not> updating fresh_dialog \<and>
   design fresh_dialog = Some [[body_part1, body_part2], [body_cyl]] \<and>
   body_selection fresh_dialog = Some [] \<and> select_all fresh_dialog = Some False \<and>
   all_bodies [[body_part1, body_part2], [body_cyl]] \<noteq> [] \<and>
   set [body_cyl, body_part1, body_part2] = set (all_bodies [[body_part1, body_part2], [body_cyl]]) \<and>
   length [body_cyl, body_part1, body_part2] = length (all_bodies [[body_part1, body_part2], [body_cyl]]) \<and>
   select_all (on_input_changed BodySelection fresh_dialog) = Some False \<and>
   select_all (user_selects_each [body_cyl, body_part1, body_part2] fresh_dialog) = Some True \<and>
   select_all (user_sets_select_all True fresh_dialog) = Some True"
proof -
  have h1: "\<not> updating fresh_dialog"
    and h2: "design fresh_dialog = Some [[body_part1, body_part2], [body_cyl]]"
    and h3: "body_selection fresh_dialog = Some []"
    and h4: "select_all fresh_dialog = Some False"
    by (simp_all add: fresh_dialog_def)
  have h5: "all_bodies [[body_part1, body_part2], [body_cyl]] \<noteq> []"
    and h6: "set [body_cyl, body_part1, body_part2] =
             set (all_bodies [[body_part1, body_part2], [body_cyl]])"
    and h7: "length [body_cyl, body_part1, body_part2] =
             length (all_bodies [[body_part1, body_part2], [body_cyl]])"
    by (auto simp: all_bodies_def)
  note t = C8_select_all_follows_selection [OF h1 h2 h3 h4, of "[body_cyl, body_part1, body_part2]"]
  have c1: "select_all (on_input_changed BodySelection fresh_dialog) = Some False"
    using t [THEN conjunct1] by (simp add: all_bodies_def)
  have c2: "select_all (user_selects_each [body_cyl, body_part1, body_part2] fresh_dialog) = Some True \<and>
            select_all (user_selects_each [body_cyl, body_part1, body_part2] fresh_dialog) =
              select_all (user_sets_select_all True fresh_dialog)"
    using t [THEN conjunct2] h5 h6 h7 by blast
  then have c3: "select_all (user_sets_select_all True fresh_dialog) = Some True"
    by metis
  from c1 c2 c3 h1 h2 h3 h4 h5 h6 h7 show ?thesis by blast
qed

text \<open>
  C9. A handler invocation that passes the guard leaves the guard flag cleared on every
  exit path, the one through an exception of the reaction included. So after any
  sequence of input changes delivered one after the other the flag is clear and the
  next change is reacted to. Only a change that arrives while the flag is set, that
  is while a reaction runs, is dropped: the handler then leaves the state as it is.
\<close>

theorem C9_guard_restored_on_every_path:
  "(\<not> updating d \<longrightarrow>
      \<not> updating (on_input_changed ev d) \<and>
      \<not> updating (input_changes evs d) \<and>
      on_input_changed ev (input_changes evs d) =
        (case react ev ((input_changes evs d)\<lparr>updating := True\<rparr>) of
           (d', None) \<Rightarrow> d'\<lparr>updating := False\<rparr>
         | (d', Some e) \<Rightarrow>
             d'\<lparr>message_boxes := message_boxes d' @ [Trace e], updating := False\<rparr>)) \<and>
   (updating d \<longrightarrow> on_input_changed ev d = d \<and> input_changes evs d = d)"
proof (intro conjI impI)
  assume n: "\<not> updating d"
  then show "\<not> updating (on_input_changed ev d)" by (rule guard_cleared)
  from n show r: "\<not> updating (input_changes evs d)" by (rule guard_cleared_run)
  then show "on_input_changed ev (input_changes evs d) =
        (case react ev ((input_changes evs d)\<lparr>updating := True\<rparr>) of
           (d', None) \<Rightarrow> d'\<lparr>updating := False\<rparr>
         | (d', Some e) \<Rightarrow>
             d'\<lparr>message_boxes := message_boxes d' @ [Trace e], updating := False\<rparr>)"
    by (simp add: on_input_changed_def)
next
  assume u: "updating d"
  then show "on_input_changed ev d = d" by (simp add: on_input_changed_def)
  from u show "input_changes evs d = d"
    by (induction evs) (simp_all add: on_input_changed_def)
qed

theorem C9_witness:
  "\<not> updating broken_dialog \<and>
   react SelectAll (broken_dialog\<lparr>updating := True\<rparr>) =
     (broken_dialog\<lparr>updating := True\<rparr>, Some AttributeError) \<and>
   message_boxes (on_input_changed SelectAll broken_dialog) = [Trace AttributeError] \<and>
   \<not> updating (on_input_changed SelectAll broken_dialog) \<and>
   \<not> updating (input_changes [SelectAll, BodySelection] broken_dialog) \<and>
   updating (broken_dialog\<lparr>updating := True\<rparr>) \<and>
   on_input_changed SelectAll (broken_dialog\<lparr>updating := True\<rparr>) =
     broken_dialog\<lparr>updating := True\<rparr>"
proof -
  have n: "\<not> updating broken_dialog"
    by (simp add: broken_dialog_def fresh_dialog_def)
  have r: "react SelectAll (broken_dialog\<lparr>updating := True\<rparr>) =
     (broken_dialog\<lparr>updating := True\<rparr>, Some AttributeError)"
    by (simp add: react_select_all_def broken_dialog_def fresh_dialog_def)
  have m: "message_boxes (on_input_changed SelectAll broken_dialog) = [Trace AttributeError]"
    using n r by (simp add: on_input_changed_def) (simp add: broken_dialog_def fresh_dialog_def)
  have u: "updating (broken_dialog\<lparr>updating := True\<rparr>)" by simp
  from C9_guard_restored_on_every_path [of broken_dialog SelectAll "[SelectAll, BodySelection]"]
    C9_guard_restored_on_every_path [of "broken_dialog\<lparr>updating := True\<rparr>" SelectAll "[]"]
    n r m u
  show ?thesis by blast
qed

section \<open>Properties of the collision resolution\<close>

lemma count_names_eq:
  "count_names ns m n =
     (if n \<in> set ns then Some (get0 m n + count_list ns n) else m n)"
  by (induction ns arbitrary: m) (auto simp: get0_def)

lemma count_names_empty:
  "count_names ns Map.empty n = (if n \<in> set ns then Some (count_list ns n) else None)"
  by (simp add: count_names_eq get0_def)

lemma file_names_nth:
  assumes "\<forall>n\<in>set ns. nc n = Some (tot n)"
  shows "\<exists>fs. file_names nc ns idx = Inr fs \<and> length fs = length ns \<and>
     (\<forall>i<length ns. fs ! i =
        expected_name (tot (ns ! i)) (get0 idx (ns ! i) + count_list (take (Suc i) ns) (ns ! i)) (ns ! i))"
  using assms
proof (induction ns arbitrary: idx)
  case Nil
  then show ?case by simp
next
  case (Cons n ns)
  let ?idx' = "idx(n \<mapsto> get0 idx n + 1)"
  from Cons.prems have "\<forall>n\<in>set ns. nc n = Some (tot n)" by simp
  from Cons.IH [OF this, of ?idx'] obtain fs where
    fs: "file_names nc ns ?idx' = Inr fs" "length fs = length ns"
    "\<forall>i<length ns. fs ! i =
        expected_name (tot (ns ! i)) (get0 ?idx' (ns ! i) + count_list (take (Suc i) ns) (ns ! i)) (ns ! i)"
    by blast
  from Cons.prems have n: "nc n = Some (tot n)" by simp
  let ?f = "expected_name (tot n) (get0 idx n + 1) n"
  have r: "file_names nc (n # ns) idx = Inr (?f # fs)"
    using n fs(1) by (simp add: expected_name_def get0_def Let_def)
  have "\<forall>i<length (n # ns). (?f # fs) ! i =
        expected_name (tot ((n # ns) ! i))
          (get0 idx ((n # ns) ! i) + count_list (take (Suc i) (n # ns)) ((n # ns) ! i))
          ((n # ns) ! i)"
  proof (intro allI impI)
    fix i assume i: "i < length (n # ns)"
    show "(?f # fs) ! i =
        expected_name (tot ((n # ns) ! i))
          (get0 idx ((n # ns) ! i) + count_list (take (Suc i) (n # ns)) ((n # ns) ! i))
          ((n # ns) ! i)"
    proof (cases i)
      case 0
      then show ?thesis by simp
    next
      case (Suc j)
      with i have j: "j < length ns" by simp
      from fs(3) j have "fs ! j = expected_name (tot (ns ! j))
          (get0 ?idx' (ns ! j) + count_list (take (Suc j) ns) (ns ! j)) (ns ! j)" by blast
      then show ?thesis using Suc by (simp add: get0_def)
    qed
  qed
  with r fs(2) show ?case by simp
qed

lemma destination_names_nth:
  "\<exists>fs. destination_names names = Inr fs \<and> length fs = length names \<and>
     (\<forall>i<length names. fs ! i =
        expected_name (count_list names (names ! i)) (count_list (take (Suc i) names) (names ! i)) (names ! i))"
proof -
  have "\<forall>n\<in>set names. count_names names Map.empty n = Some (count_list names n)"
    by (simp add: count_names_empty)
  from file_names_nth [OF this, of Map.empty] show ?thesis
    by (simp add: destination_names_def get0_def)
qed

lemma destination_names_scenario:
  "destination_names [ascii ''Part'', ascii ''Part'', ascii ''Cylinder1''] =
     Inr [ascii ''Part (1).stl'', ascii ''Part (2).stl'', ascii ''Cylinder1.stl'']"
  by (simp add: destination_names_def get0_def ascii_def str_nat.simps)

text \<open>
  C1. The numbering gives every occurrence of a repeated raw name its 1-based
  occurrence index and leaves a name that occurs once as it is (lemma
  \<open>destination_names_nth\<close>), and \<open>Part\<close>, \<open>Part\<close>, \<open>Cylinder1\<close> get the
  destinations of the scenario. The destinations are not always pairwise distinct:
  for bodies named \<open>Part\<close>, \<open>Part\<close> and \<open>Part (1)\<close> the first and the third
  job get the same path \<open>Part (1).stl\<close>.
\<close>

theorem C1_numbered_name_meets_raw_name:
  "export_jobs (path_join calm_env) (ascii ''/tmp/out'') None
     [body_part1, body_part2, body_copy] =
   Inr [(body_part1, ascii ''/tmp/out/Part (1).stl''),
        (body_part2, ascii ''/tmp/out/Part (2).stl''),
        (body_copy, ascii ''/tmp/out/Part (1).stl'')] \<and>
   destination_names [ascii ''Part'', ascii ''Part'', ascii ''Part (1)''] =
     Inr [ascii ''Part (1).stl'', ascii ''Part (2).stl'', ascii ''Part (1).stl''] \<and>
   \<not> distinct [ascii ''Part (1).stl'', ascii ''Part (2).stl'', ascii ''Part (1).stl'']"
proof -
  have n: "raw_names None 0 [body_part1, body_part2, body_copy] =
      [ascii ''Part'', ascii ''Part'', ascii ''Part (1)'']"
    by (simp add: raw_name_def body_part1_def body_part2_def body_copy_def safe_filename_def
        strip_def illegal_chars_def is_space_def ascii_def)
  have d: "destination_names [ascii ''Part'', ascii ''Part'', ascii ''Part (1)''] =
     Inr [ascii ''Part (1).stl'', ascii ''Part (2).stl'', ascii ''Part (1).stl'']"
    by (simp add: destination_names_def get0_def ascii_def str_nat.simps)
  have j: "export_jobs (path_join calm_env) (ascii ''/tmp/out'') None
     [body_part1, body_part2, body_copy] =
   Inr [(body_part1, ascii ''/tmp/out/Part (1).stl''),
        (body_part2, ascii ''/tmp/out/Part (2).stl''),
        (body_copy, ascii ''/tmp/out/Part (1).stl'')]"
    unfolding export_jobs_def n d by (simp add: calm_env_def ascii_def)
  have nd: "\<not> distinct [ascii ''Part (1).stl'', ascii ''Part (2).stl'', ascii ''Part (1).stl'']"
    by simp
  from j d nd show ?thesis by (intro conjI)
qed

section \<open>Properties of the two phases of the export\<close>

lemma remove_existing_counters:
  "exported (remove_existing f jobs st) = exported st"
  "errors (remove_existing f jobs st) = errors st"
  "cancelled (remove_existing f jobs st) = cancelled st"
  by (induction f jobs st rule: remove_existing.induct) simp_all

lemma remove_existing_files:
  "files (remove_existing f jobs st) = files st - {p \<in> snd ` set jobs. \<not> f p}"
  by (induction f jobs st rule: remove_existing.induct) auto

lemma remove_existing_overwritten:
  "overwritten (remove_existing f jobs st) =
     overwritten st + card {p \<in> snd ` set jobs. p \<in> files st \<and> \<not> f p}"
proof (induction f jobs st rule: remove_existing.induct)
  case (1 f st)
  then show ?case by simp
next
  case (2 f b fpath jobs st)
  let ?S = "\<lambda>F js. {p \<in> snd ` set js. p \<in> F \<and> \<not> f p}"
  show ?case
  proof (cases "fpath \<in> files st \<and> \<not> f fpath")
    case True
    have fin: "finite (?S (files st - {fpath}) jobs)" by simp
    have "?S (files st) ((b, fpath) # jobs) = insert fpath (?S (files st - {fpath}) jobs)"
      using True by auto
    moreover have "fpath \<notin> ?S (files st - {fpath}) jobs" by simp
    ultimately have "card (?S (files st) ((b, fpath) # jobs)) =
        Suc (card (?S (files st - {fpath}) jobs))"
      using fin by simp
    with True "2.IH" show ?thesis by simp
  next
    case False
    then have "?S (files st) ((b, fpath) # jobs) = ?S (files st) jobs" by auto
    with False "2.IH" show ?thesis by auto
  qed
qed

lemma remove_existing_effects:
  "\<exists>new. effects (remove_existing f jobs st) = effects st @ new \<and> (\<forall>x\<in>set new. is_removal x) \<and>
     (\<forall>p. RemoveFailed p \<in> set new \<longleftrightarrow> p \<in> snd ` set jobs \<and> p \<in> files st \<and> f p)"
proof (induction f jobs st rule: remove_existing.induct)
  case (1 f st)
  then show ?case by simp
next
  case (2 f b fpath jobs st)
  let ?st' = "(if fpath \<in> files st then
          (if f fpath then st\<lparr>effects := effects st @ [RemoveFailed fpath]\<rparr>
           else st\<lparr>overwritten := overwritten st + 1,
                   files := files st - {fpath},
                   effects := effects st @ [Removed fpath]\<rparr>)
        else st)"
  from "2.IH" obtain new where
    new: "effects (remove_existing f jobs ?st') = effects ?st' @ new"
      "\<forall>x\<in>set new. is_removal x"
      "\<forall>p. RemoveFailed p \<in> set new \<longleftrightarrow> p \<in> snd ` set jobs \<and> p \<in> files ?st' \<and> f p"
    by blast
  show ?case
  proof (cases "fpath \<in> files st")
    case False
    with new show ?thesis by (intro exI [of _ new]) auto
  next
    case True
    show ?thesis
    proof (cases "f fpath")
      case True
      with \<open>fpath \<in> files st\<close> new show ?thesis
        by (intro exI [of _ "RemoveFailed fpath # new"]) auto
    next
      case False
      with \<open>fpath \<in> files st\<close> new show ?thesis
        by (intro exI [of _ "Removed fpath # new"]) auto
    qed
  qed
qed

lemma export_all_kept:
  "overwritten (export_all e q i jobs st) = overwritten st"
  by (induction e q i jobs st rule: export_all.induct) (simp_all split: option.splits)

lemma export_all_effects:
  "\<exists>new. effects (export_all e q i jobs st) = effects st @ new \<and>
     (\<forall>x\<in>set new. \<not> is_removal x) \<and> length new \<le> length jobs \<and>
     files (export_all e q i jobs st) = files st \<union> written new"
proof (induction e q i jobs st rule: export_all.induct)
  case (1 e q i st)
  then show ?case by simp
next
  case (2 e q i b fpath jobs st)
  show ?case
  proof (cases "was_cancelled e i")
    case True
    then show ?thesis by simp
  next
    case nc: False
    show ?thesis
    proof (cases "export_raises e i")
      case None
      with nc "2.IH"(1) obtain new where
        "effects (export_all e q (Suc i) jobs
               (st\<lparr>exported := exported st + 1,
                   files := insert fpath (files st),
                   effects := effects st @ [Exported b fpath q]\<rparr>)) =
          (effects st @ [Exported b fpath q]) @ new"
        "\<forall>x\<in>set new. \<not> is_removal x" "length new \<le> length jobs"
        "files (export_all e q (Suc i) jobs
               (st\<lparr>exported := exported st + 1,
                   files := insert fpath (files st),
                   effects := effects st @ [Exported b fpath q]\<rparr>)) =
          insert fpath (files st) \<union> written new"
        by auto
      with nc None show ?thesis
        by (intro exI [of _ "Exported b fpath q # new"]) simp
    next
      case (Some ex)
      with nc "2.IH"(2) obtain new where
        "effects (export_all e q (Suc i) jobs
               (st\<lparr>errors := errors st @ [body_name b @ ascii '': '' @ ex],
                   effects := effects st @ [ExportFailed b fpath q ex]\<rparr>)) =
          (effects st @ [ExportFailed b fpath q ex]) @ new"
        "\<forall>x\<in>set new. \<not> is_removal x" "length new \<le> length jobs"
        "files (export_all e q (Suc i) jobs
               (st\<lparr>errors := errors st @ [body_name b @ ascii '': '' @ ex],
                   effects := effects st @ [ExportFailed b fpath q ex]\<rparr>)) =
          files st \<union> written new"
        by auto
      with nc Some show ?thesis
        by (intro exI [of _ "ExportFailed b fpath q ex # new"]) simp
    qed
  qed
qed

lemma export_all_append:
  "\<forall>k<length xs. \<not> was_cancelled e (i + k) \<Longrightarrow>
   export_all e q i (xs @ ys) st = export_all e q (i + length xs) ys (export_all e q i xs st)"
proof (induction xs arbitrary: i st)
  case Nil
  then show ?case by simp
next
  case (Cons x xs)
  obtain b p where x: "x = (b, p)" by (cases x)
  from Cons.prems have c0: "\<not> was_cancelled e i" by force
  from Cons.prems have rest: "\<forall>k<length xs. \<not> was_cancelled e (Suc i + k)" by force
  show ?case
    using c0 Cons.IH [OF rest] by (simp add: x split: option.splits)
qed

lemma export_all_cancel_now:
  "was_cancelled e i \<Longrightarrow> ys \<noteq> [] \<Longrightarrow> export_all e q i ys st = st\<lparr>cancelled := True\<rparr>"
  by (cases ys) auto

lemma export_all_processed:
  "\<forall>k<length xs. \<not> was_cancelled e (i + k) \<Longrightarrow>
   exported (export_all e q i xs st) + length (errors (export_all e q i xs st)) =
     exported st + length (errors st) + length xs \<and>
   cancelled (export_all e q i xs st) = cancelled st \<and>
   length (effects (export_all e q i xs st)) = length (effects st) + length xs"
proof (induction xs arbitrary: i st)
  case Nil
  then show ?case by simp
next
  case (Cons x xs)
  obtain b p where x: "x = (b, p)" by (cases x)
  from Cons.prems have c0: "\<not> was_cancelled e i" by force
  from Cons.prems have rest: "\<forall>k<length xs. \<not> was_cancelled e (Suc i + k)" by force
  show ?case
    using c0 Cons.IH [OF rest] by (simp add: x split: option.splits)
qed

lemma export_all_succeed:
  "\<forall>k<length xs. \<not> was_cancelled e (i + k) \<and> export_raises e (i + k) = None \<Longrightarrow>
   export_all e q i xs st =
     st\<lparr>exported := exported st + length xs,
        files := files st \<union> snd ` set xs,
        effects := effects st @ map (\<lambda>(b, p). Exported b p q) xs\<rparr>"
proof (induction xs arbitrary: i st)
  case Nil
  then show ?case by simp
next
  case (Cons x xs)
  obtain b p where x: "x = (b, p)" by (cases x)
  from Cons.prems have c0: "\<not> was_cancelled e i" "export_raises e i = None" by force+
  from Cons.prems have rest:
    "\<forall>k<length xs. \<not> was_cancelled e (Suc i + k) \<and> export_raises e (Suc i + k) = None" by force
  show ?case
    using c0 Cons.IH [OF rest] by (simp add: x)
qed

lemma export_all_errors_prefix:
  "\<exists>new. errors (export_all e q i xs st) = errors st @ new"
  by (induction e q i xs st rule: export_all.induct) (auto split: option.splits)

lemma export_all_recorded:
  "\<forall>k<length xs. \<not> was_cancelled e (i + k) \<Longrightarrow> j < length xs \<Longrightarrow>
   export_raises e (i + j) = Some ex \<Longrightarrow>
   body_name (fst (xs ! j)) @ ascii '': '' @ ex \<in> set (errors (export_all e q i xs st))"
proof (induction xs arbitrary: i j st)
  case Nil
  then show ?case by simp
next
  case (Cons x xs)
  obtain b p where x: "x = (b, p)" by (cases x)
  from Cons.prems have c0: "\<not> was_cancelled e i" by force
  from Cons.prems have rest: "\<forall>k<length xs. \<not> was_cancelled e (Suc i + k)" by force
  show ?case
  proof (cases j)
    case 0
    with Cons.prems have r: "export_raises e i = Some ex" by simp
    let ?st' = "st\<lparr>errors := errors st @ [body_name b @ ascii '': '' @ ex],
                   effects := effects st @ [ExportFailed b p q ex]\<rparr>"
    from export_all_errors_prefix [of e q "Suc i" xs ?st'] obtain new where
      "errors (export_all e q (Suc i) xs ?st') = errors ?st' @ new" by blast
    with c0 r 0 show ?thesis by (simp add: x)
  next
    case (Suc j')
    with Cons.prems have "j' < length xs" "export_raises e (Suc i + j') = Some ex" by simp_all
    from Cons.IH [OF rest this] c0 Suc show ?thesis
      by (simp add: x split: option.splits)
  qed
qed

lemma cleanup_state:
  "exported (remove_existing f jobs (new_batch fs)) = 0"
  "errors (remove_existing f jobs (new_batch fs)) = []"
  "cancelled (remove_existing f jobs (new_batch fs)) = False"
  "files (remove_existing f jobs (new_batch fs)) = fs - {p \<in> snd ` set jobs. \<not> f p}"
  "overwritten (remove_existing f jobs (new_batch fs)) =
     card {p \<in> snd ` set jobs. p \<in> fs \<and> \<not> f p}"
  by (simp_all add: remove_existing_counters remove_existing_files remove_existing_overwritten
      new_batch_def)

lemma cleanup_effects:
  "(\<forall>x\<in>set (effects (remove_existing f jobs (new_batch fs))). is_removal x) \<and>
   (\<forall>p. RemoveFailed p \<in> set (effects (remove_existing f jobs (new_batch fs))) \<longleftrightarrow>
      p \<in> snd ` set jobs \<and> p \<in> fs \<and> f p)"
  using remove_existing_effects [of f jobs "new_batch fs"]
  by (auto simp: new_batch_def)

lemma filter_exports:
  "(\<forall>x\<in>set rem. is_removal x) \<Longrightarrow> (\<forall>x\<in>set new. \<not> is_removal x) \<Longrightarrow>
   filter (\<lambda>x. \<not> is_removal x) (rem @ new) = new"
  by (simp add: filter_empty_conv [THEN iffD2] filter_id_conv [THEN iffD2])

lemma export_one_fails:
  assumes nc: "\<forall>i<length jobs. \<not> was_cancelled e i"
    and j: "j < length jobs" and ex: "export_raises e j = Some ex"
    and others: "\<forall>k<length jobs. k \<noteq> j \<longrightarrow> export_raises e k = None"
    and st: "exported st = 0" "errors st = []"
  shows "exported (export_all e q 0 jobs st) = length jobs - 1 \<and>
         errors (export_all e q 0 jobs st) = [body_name (fst (jobs ! j)) @ ascii '': '' @ ex]"
proof -
  let ?pre = "take j jobs" and ?post = "drop (Suc j) jobs"
  obtain b p where x: "jobs ! j = (b, p)" by (cases "jobs ! j")
  have split: "jobs = ?pre @ (b, p) # ?post"
    unfolding x [symmetric] using j by (rule id_take_nth_drop)
  have lp: "length ?pre = j" using j by simp
  have pre_ok: "\<forall>k<length ?pre. \<not> was_cancelled e (0 + k) \<and> export_raises e (0 + k) = None"
    using nc others j by simp
  have pre_nc: "\<forall>k<length ?pre. \<not> was_cancelled e (0 + k)" using pre_ok by blast
  let ?s1 = "export_all e q 0 ?pre st"
  have s1: "?s1 = st\<lparr>exported := exported st + length ?pre,
        files := files st \<union> snd ` set ?pre,
        effects := effects st @ map (\<lambda>(b, p). Exported b p q) ?pre\<rparr>"
    using pre_ok by (rule export_all_succeed)
  let ?s2 = "?s1\<lparr>errors := errors ?s1 @ [body_name b @ ascii '': '' @ ex],
                   effects := effects ?s1 @ [ExportFailed b p q ex]\<rparr>"
  have post_ok: "\<forall>k<length ?post. \<not> was_cancelled e (Suc j + k) \<and> export_raises e (Suc j + k) = None"
    using nc others j by simp
  have s3: "export_all e q (Suc j) ?post ?s2 = ?s2\<lparr>exported := exported ?s2 + length ?post,
        files := files ?s2 \<union> snd ` set ?post,
        effects := effects ?s2 @ map (\<lambda>(b, p). Exported b p q) ?post\<rparr>"
    using post_ok by (rule export_all_succeed)
  have ncj: "\<not> was_cancelled e j" using nc j by simp
  have "export_all e q 0 jobs st = export_all e q 0 (?pre @ (b, p) # ?post) st"
    using split by simp
  also have "\<dots> = export_all e q (0 + length ?pre) ((b, p) # ?post) ?s1"
    using pre_nc by (rule export_all_append)
  also have "\<dots> = export_all e q (Suc j) ?post ?s2"
    using ncj ex lp by simp
  finally have r: "export_all e q 0 jobs st = ?s2\<lparr>exported := exported ?s2 + length ?post,
        files := files ?s2 \<union> snd ` set ?post,
        effects := effects ?s2 @ map (\<lambda>(b, p). Exported b p q) ?post\<rparr>"
    using s3 by simp
  have f1: "exported ?s1 = j" using j by (simp add: s1 st)
  have f2: "errors ?s1 = []" by (simp add: s1 st)
  have e1: "exported ?s2 = j" by (simp add: f1)
  have e2: "errors ?s2 = [body_name b @ ascii '': '' @ ex]" by (simp add: f2)
  have "exported (export_all e q 0 jobs st) = j + length ?post"
    by (subst r) (simp add: f1)
  moreover have "errors (export_all e q 0 jobs st) = [body_name b @ ascii '': '' @ ex]"
    by (subst r) (simp add: f2)
  moreover have "j + length ?post = length jobs - 1" using j by simp
  ultimately show ?thesis using x by simp
qed

lemma on_execute_trace_independent:
  "fst (on_execute (e\<lparr>export_raises := x\<rparr>) d w) = Trace err \<longleftrightarrow> fst (on_execute e d w) = Trace err"
  by (simp add: on_execute_def Let_def split: option.splits sum.splits)

text \<open>
  When the preparation succeeds, the message box of the execute handler is the summary of
  the batch, and the world is the one the batch leaves.
\<close>

lemma length_raw_names: "length (raw_names children i bodies) = length bodies"
  by (induction bodies arbitrary: i) simp_all

lemma export_jobs_total:
  "\<exists>jobs. export_jobs join output_dir children bodies = Inr jobs \<and> map fst jobs = bodies \<and>
     length jobs = length bodies"
proof -
  from destination_names_nth [of "raw_names children 0 bodies"] obtain fs where
    fs: "destination_names (raw_names children 0 bodies) = Inr fs"
      "length fs = length (raw_names children 0 bodies)" by blast
  then have "length fs = length bodies" by (simp add: length_raw_names)
  with fs(1) show ?thesis by (simp add: export_jobs_def)
qed

lemma on_execute_runs_batch:
  assumes "body_selection d = Some bodies" "bodies \<noteq> []" "quality d = Some qn"
    "output_path d = Some path" "strip path \<noteq> []" "\<not> makedirs_fails e"
    "save_settings (settings_read_fails e) (settings_write e) (settings_json w)
       [ascii ''outputPath'' \<mapsto> strip path] = Inr f'"
    "design d = Some comps"
  shows "\<exists>jobs. export_jobs (path_join e) (strip path) (body_list_group d) bodies = Inr jobs \<and>
      map fst jobs = bodies \<and>
      on_execute e d w =
        (Info (join_lines (summary_lines (run_batch e (quality_of qn) jobs (existing w)) (strip path))),
         \<lparr>existing = files (run_batch e (quality_of qn) jobs (existing w)), settings_json = f',
          trace = trace w @ effects (run_batch e (quality_of qn) jobs (existing w))\<rparr>)"
proof -
  from export_jobs_total [of "path_join e" "strip path" "body_list_group d" bodies]
  obtain jobs where j: "export_jobs (path_join e) (strip path) (body_list_group d) bodies = Inr jobs"
    "map fst jobs = bodies" by blast
  with assms show ?thesis by (simp add: on_execute_def Let_def)
qed

text \<open>
  C2 as the code has it. The cleanup removes every destination that exists and whose
  removal does not fail, before any export is attempted: all removals come first in
  the effects, and the files left when the first export starts are the former ones
  less the destinations that could be removed. A removal that fails is passed over: it
  is counted nowhere, the file stays, and the batch goes on, so that without
  cancellation every job is still exported. The files of the finished batch are those
  the cleanup left and those the exports wrote. The overwritten count of the summary
  is the number of files removed.
\<close>

theorem C2_cleanup_counts_removed_files:
  assumes "r = run_batch e q jobs fs"
  shows "files (remove_existing (remove_fails e) jobs (new_batch fs)) =
      fs - {p \<in> snd ` set jobs. \<not> remove_fails e p} \<and>
    overwritten r = card {p \<in> snd ` set jobs. p \<in> fs \<and> \<not> remove_fails e p} \<and>
    (\<exists>rem exp. effects r = rem @ exp \<and>
       rem = effects (remove_existing (remove_fails e) jobs (new_batch fs)) \<and>
       (\<forall>x\<in>set rem. is_removal x) \<and> (\<forall>x\<in>set exp. \<not> is_removal x) \<and>
       (\<forall>p. RemoveFailed p \<in> set rem \<longleftrightarrow> p \<in> snd ` set jobs \<and> p \<in> fs \<and> remove_fails e p) \<and>
       files r = (fs - {p \<in> snd ` set jobs. \<not> remove_fails e p}) \<union> written exp \<and>
       ((\<forall>i<length jobs. \<not> was_cancelled e i) \<longrightarrow> length exp = length jobs)) \<and>
    (overwritten r \<noteq> 0 \<longrightarrow>
       summary_lines r dir ! 1 = ascii ''Overwritten: '' @ str_nat (overwritten r))"
proof -
  let ?p1 = "remove_existing (remove_fails e) jobs (new_batch fs)"
  have r: "r = export_all e q 0 jobs ?p1" using assms by (simp add: run_batch_def)
  have a: "files ?p1 = fs - {p \<in> snd ` set jobs. \<not> remove_fails e p}"
    by (simp add: cleanup_state)
  have b: "overwritten r = card {p \<in> snd ` set jobs. p \<in> fs \<and> \<not> remove_fails e p}"
    by (simp add: r export_all_kept cleanup_state)
  from export_all_effects [of e q 0 jobs ?p1] obtain new where
    new: "effects r = effects ?p1 @ new" "\<forall>x\<in>set new. \<not> is_removal x"
      "files r = files ?p1 \<union> written new"
    unfolding r by blast
  have len: "length new = length jobs" if "\<forall>i<length jobs. \<not> was_cancelled e i"
  proof -
    from that have "\<forall>k<length jobs. \<not> was_cancelled e (0 + k)" by simp
    from export_all_processed [OF this, of q ?p1]
    have "length (effects r) = length (effects ?p1) + length jobs" unfolding r by blast
    with new(1) show ?thesis by simp
  qed
  from cleanup_effects [of "remove_fails e" jobs fs]
  have rem: "\<forall>x\<in>set (effects ?p1). is_removal x"
    and fl: "\<forall>p. RemoveFailed p \<in> set (effects ?p1) \<longleftrightarrow>
      p \<in> snd ` set jobs \<and> p \<in> fs \<and> remove_fails e p"
    by (rule conjunct1, rule conjunct2)
  have c: "\<exists>rem exp. effects r = rem @ exp \<and>
       rem = effects ?p1 \<and>
       (\<forall>x\<in>set rem. is_removal x) \<and> (\<forall>x\<in>set exp. \<not> is_removal x) \<and>
       (\<forall>p. RemoveFailed p \<in> set rem \<longleftrightarrow> p \<in> snd ` set jobs \<and> p \<in> fs \<and> remove_fails e p) \<and>
       files r = (fs - {p \<in> snd ` set jobs. \<not> remove_fails e p}) \<union> written exp \<and>
       ((\<forall>i<length jobs. \<not> was_cancelled e i) \<longrightarrow> length exp = length jobs)"
  proof (intro exI conjI impI)
    show "effects r = effects ?p1 @ new" by (rule new(1))
    show "effects ?p1 = effects ?p1" by (rule refl)
    show "\<forall>x\<in>set (effects ?p1). is_removal x" by (rule rem)
    show "\<forall>x\<in>set new. \<not> is_removal x" by (rule new(2))
    show "\<forall>p. RemoveFailed p \<in> set (effects ?p1) \<longleftrightarrow>
      p \<in> snd ` set jobs \<and> p \<in> fs \<and> remove_fails e p" by (rule fl)
    show "files r = (fs - {p \<in> snd ` set jobs. \<not> remove_fails e p}) \<union> written new"
      using new(3) a by simp
    show "length new = length jobs" if "\<forall>i<length jobs. \<not> was_cancelled e i"
      using that by (rule len)
  qed
  have d: "overwritten r \<noteq> 0 \<longrightarrow>
       summary_lines r dir ! 1 = ascii ''Overwritten: '' @ str_nat (overwritten r)"
    by (simp add: summary_lines_def)
  from a b c d show ?thesis by (intro conjI)
qed

theorem C2_witness:
  "locked_run = run_batch locked_env MeshRefinementHigh three_jobs
       {ascii ''/tmp/out/Part (1).stl'', ascii ''/tmp/out/Part (2).stl'',
        ascii ''/tmp/out/notes.txt''} \<and>
   files (remove_existing (remove_fails locked_env) three_jobs
       (new_batch {ascii ''/tmp/out/Part (1).stl'', ascii ''/tmp/out/Part (2).stl'',
        ascii ''/tmp/out/notes.txt''})) =
     {ascii ''/tmp/out/Part (2).stl'', ascii ''/tmp/out/notes.txt''} \<and>
   files locked_run =
     {ascii ''/tmp/out/Part (1).stl'', ascii ''/tmp/out/Part (2).stl'',
      ascii ''/tmp/out/Cylinder1.stl'', ascii ''/tmp/out/notes.txt''} \<and>
   overwritten locked_run = 1 \<and>
   effects locked_run =
     [Removed (ascii ''/tmp/out/Part (1).stl''), RemoveFailed (ascii ''/tmp/out/Part (2).stl''),
      Exported body_part1 (ascii ''/tmp/out/Part (1).stl'') MeshRefinementHigh,
      Exported body_part2 (ascii ''/tmp/out/Part (2).stl'') MeshRefinementHigh,
      Exported body_cyl (ascii ''/tmp/out/Cylinder1.stl'') MeshRefinementHigh] \<and>
   summary_lines locked_run (ascii ''/tmp/out'') ! 1 = ascii ''Overwritten: 1''"
proof -
  note t = C2_cleanup_counts_removed_files [OF locked_run_def,
      of "ascii ''/tmp/out''"]
  have o: "overwritten locked_run = 1"
    by (simp add: locked_run_def run_batch_def new_batch_def three_jobs_def locked_env_def
        calm_env_def ascii_def)
  have e: "effects locked_run =
     [Removed (ascii ''/tmp/out/Part (1).stl''), RemoveFailed (ascii ''/tmp/out/Part (2).stl''),
      Exported body_part1 (ascii ''/tmp/out/Part (1).stl'') MeshRefinementHigh,
      Exported body_part2 (ascii ''/tmp/out/Part (2).stl'') MeshRefinementHigh,
      Exported body_cyl (ascii ''/tmp/out/Cylinder1.stl'') MeshRefinementHigh]"
    by (simp add: locked_run_def run_batch_def new_batch_def three_jobs_def locked_env_def
        calm_env_def ascii_def)
  have f1: "files (remove_existing (remove_fails locked_env) three_jobs
       (new_batch {ascii ''/tmp/out/Part (1).stl'', ascii ''/tmp/out/Part (2).stl'',
        ascii ''/tmp/out/notes.txt''})) =
     {ascii ''/tmp/out/Part (2).stl'', ascii ''/tmp/out/notes.txt''}"
    by (simp add: new_batch_def three_jobs_def locked_env_def calm_env_def ascii_def
        insert_Diff_if)
  have f2: "files locked_run =
     {ascii ''/tmp/out/Part (1).stl'', ascii ''/tmp/out/Part (2).stl'',
      ascii ''/tmp/out/Cylinder1.stl'', ascii ''/tmp/out/notes.txt''}"
    by (auto simp: locked_run_def run_batch_def new_batch_def three_jobs_def locked_env_def
        calm_env_def ascii_def)
  have ow: "overwritten locked_run \<noteq> 0" by (simp add: o)
  from t [THEN conjunct2, THEN conjunct2, THEN conjunct2] ow
  have "summary_lines locked_run (ascii ''/tmp/out'') ! 1 =
      ascii ''Overwritten: '' @ str_nat (overwritten locked_run)" by blast
  then have sl: "summary_lines locked_run (ascii ''/tmp/out'') ! 1 = ascii ''Overwritten: 1''"
    by (simp add: o str_nat.simps ascii_def)
  from locked_run_def f1 f2 o e sl show ?thesis by (intro conjI)
qed

text \<open>
  C2 as it is stated fails: a removal that fails is not counted. With one job whose
  destination exists and cannot be removed, the removal is attempted and fails, the
  overwritten count stays 0 and the summary has no line for it.
\<close>

theorem C2_failed_removal_is_not_counted:
  "effects stuck_run =
     [RemoveFailed (ascii ''/tmp/out/Part (2).stl''),
      Exported body_part2 (ascii ''/tmp/out/Part (2).stl'') MeshRefinementHigh] \<and>
   overwritten stuck_run = 0 \<and>
   summary_lines stuck_run (ascii ''/tmp/out'') =
     [ascii ''Exported: 1'', 10 # ascii ''Location: /tmp/out'']"
  by (simp add: stuck_run_def run_batch_def new_batch_def locked_env_def calm_env_def
      summary_lines_def str_nat.simps ascii_def)

text \<open>
  C4. The export loop reads the cancellation flag before each job. When the flag is
  first seen set before job \<open>k\<close>, the loop stops: the batch is what the loop over
  the first \<open>k\<close> jobs alone leaves, marked cancelled, so the later jobs are neither
  exported nor recorded as errors. If the first \<open>k\<close> exports succeeded, the
  summary reports \<open>k\<close> exported, has the cancellation notice and no error line.
\<close>

theorem C4_cancellation_stops_the_loop:
  assumes "k < length jobs" "\<forall>i<k. \<not> was_cancelled e i" "was_cancelled e k"
    "r = run_batch e q jobs fs"
  shows "r = (export_all e q 0 (take k jobs)
               (remove_existing (remove_fails e) jobs (new_batch fs)))\<lparr>cancelled := True\<rparr> \<and>
    cancelled r \<and>
    exported r + length (errors r) = k \<and>
    length (filter (\<lambda>x. \<not> is_removal x) (effects r)) = k \<and>
    ((\<forall>i<k. export_raises e i = None) \<longrightarrow>
       exported r = k \<and> errors r = [] \<and>
       filter (\<lambda>x. \<not> is_removal x) (effects r) = map (\<lambda>(b, p). Exported b p q) (take k jobs) \<and>
       summary_lines r dir =
         [ascii ''Exported: '' @ str_nat k]
         @ (if overwritten r \<noteq> 0 then [ascii ''Overwritten: '' @ str_nat (overwritten r)] else [])
         @ [10 # ascii ''Export cancelled by user.'', 10 # ascii ''Location: '' @ dir])"
proof -
  let ?p1 = "remove_existing (remove_fails e) jobs (new_batch fs)"
  let ?pre = "take k jobs"
  let ?mid = "export_all e q 0 ?pre ?p1"
  have lp: "length ?pre = k" using assms(1) by simp
  have nc: "\<forall>i<length ?pre. \<not> was_cancelled e (0 + i)" using assms(2) lp by simp
  have dn: "drop k jobs \<noteq> []" using assms(1) by simp
  have "run_batch e q jobs fs = export_all e q 0 (?pre @ drop k jobs) ?p1"
    by (simp add: run_batch_def)
  also have "\<dots> = export_all e q (0 + length ?pre) (drop k jobs) ?mid"
    using nc by (rule export_all_append)
  also have "\<dots> = ?mid\<lparr>cancelled := True\<rparr>"
    using assms(3) dn lp by (simp add: export_all_cancel_now)
  finally have r: "r = ?mid\<lparr>cancelled := True\<rparr>" using assms(4) by simp
  from export_all_processed [OF nc, of q ?p1]
  have cnt: "exported ?mid + length (errors ?mid) = k"
    and le: "length (effects ?mid) = length (effects ?p1) + k"
    using lp by (simp_all add: cleanup_state)
  from export_all_effects [of e q 0 ?pre ?p1] obtain new where
    new: "effects ?mid = effects ?p1 @ new" "\<forall>x\<in>set new. \<not> is_removal x" by blast
  from cleanup_effects [of "remove_fails e" jobs fs]
  have rem: "\<forall>x\<in>set (effects ?p1). is_removal x" by blast
  have fl: "filter (\<lambda>x. \<not> is_removal x) (effects ?mid) = new"
    unfolding new(1) using rem new(2) by (rule filter_exports)
  have ln: "length new = k" using le new(1) by simp
  have good: "exported r = k \<and> errors r = [] \<and>
       filter (\<lambda>x. \<not> is_removal x) (effects r) = map (\<lambda>(b, p). Exported b p q) (take k jobs) \<and>
       summary_lines r dir =
         [ascii ''Exported: '' @ str_nat k]
         @ (if overwritten r \<noteq> 0 then [ascii ''Overwritten: '' @ str_nat (overwritten r)] else [])
         @ [10 # ascii ''Export cancelled by user.'', 10 # ascii ''Location: '' @ dir]"
    if ok: "\<forall>i<k. export_raises e i = None"
  proof -
    from nc ok lp have "\<forall>i<length ?pre. \<not> was_cancelled e (0 + i) \<and> export_raises e (0 + i) = None"
      by simp
    from export_all_succeed [OF this, of q ?p1]
    have m: "?mid = ?p1\<lparr>exported := exported ?p1 + length ?pre,
        files := files ?p1 \<union> snd ` set ?pre,
        effects := effects ?p1 @ map (\<lambda>(b, p). Exported b p q) ?pre\<rparr>" .
    have e1: "exported r = k" unfolding r using assms(1) by (subst m) (simp add: cleanup_state)
    have e2: "errors r = []" unfolding r by (subst m) (simp add: cleanup_state)
    have e3: "effects ?mid = effects ?p1 @ map (\<lambda>(b, p). Exported b p q) ?pre"
      by (subst m) simp
    with new(1) have "new = map (\<lambda>(b, p). Exported b p q) ?pre" by simp
    with fl have e4: "filter (\<lambda>x. \<not> is_removal x) (effects r) =
        map (\<lambda>(b, p). Exported b p q) (take k jobs)"
      unfolding r by simp
    have e5: "cancelled r" unfolding r by simp
    from e1 e2 e5 have "summary_lines r dir =
         [ascii ''Exported: '' @ str_nat k]
         @ (if overwritten r \<noteq> 0 then [ascii ''Overwritten: '' @ str_nat (overwritten r)] else [])
         @ [10 # ascii ''Export cancelled by user.'', 10 # ascii ''Location: '' @ dir]"
      by (simp add: summary_lines_def)
    with e1 e2 e4 show ?thesis by blast
  qed
  have a: "cancelled r" unfolding r by simp
  have b: "exported r + length (errors r) = k" unfolding r using cnt by simp
  have c: "length (filter (\<lambda>x. \<not> is_removal x) (effects r)) = k"
    unfolding r using fl ln by simp
  from r a b c good show ?thesis by blast
qed

theorem C4_witness:
  "2 < length five_jobs \<and>
   \<not> was_cancelled cancelling_env 0 \<and> \<not> was_cancelled cancelling_env 1 \<and>
   was_cancelled cancelling_env 2 \<and>
   cancelled_run = run_batch cancelling_env MeshRefinementHigh five_jobs {} \<and>
   export_raises cancelling_env 0 = None \<and> export_raises cancelling_env 1 = None \<and>
   cancelled cancelled_run \<and> exported cancelled_run = 2 \<and> errors cancelled_run = [] \<and>
   filter (\<lambda>x. \<not> is_removal x) (effects cancelled_run) =
     [Exported body_part1 (ascii ''/tmp/out/Part (1).stl'') MeshRefinementHigh,
      Exported body_part2 (ascii ''/tmp/out/Part (2).stl'') MeshRefinementHigh] \<and>
   summary_lines cancelled_run (ascii ''/tmp/out'') =
     [ascii ''Exported: 2'', 10 # ascii ''Export cancelled by user.'',
      10 # ascii ''Location: /tmp/out'']"
proof -
  have h1: "2 < length five_jobs" by (simp add: five_jobs_def three_jobs_def)
  have h2: "\<forall>i<2. \<not> was_cancelled cancelling_env i"
    by (simp add: cancelling_env_def calm_env_def)
  have h3: "was_cancelled cancelling_env 2" by (simp add: cancelling_env_def calm_env_def)
  have h4: "\<forall>i<2. export_raises cancelling_env i = None"
    by (simp add: cancelling_env_def calm_env_def)
  note t = C4_cancellation_stops_the_loop [OF h1 h2 h3 cancelled_run_def,
      of "ascii ''/tmp/out''"]
  have ow: "overwritten cancelled_run = 0"
    by (simp add: cancelled_run_def run_batch_def export_all_kept cleanup_state)
  have tk: "take 2 five_jobs =
      [(body_part1, ascii ''/tmp/out/Part (1).stl''),
       (body_part2, ascii ''/tmp/out/Part (2).stl'')]"
    by (simp add: five_jobs_def three_jobs_def)
  from t h4 have c: "cancelled cancelled_run" and g: "exported cancelled_run = 2 \<and>
       errors cancelled_run = [] \<and>
       filter (\<lambda>x. \<not> is_removal x) (effects cancelled_run) =
         map (\<lambda>(b, p). Exported b p MeshRefinementHigh) (take 2 five_jobs) \<and>
       summary_lines cancelled_run (ascii ''/tmp/out'') =
         [ascii ''Exported: '' @ str_nat 2]
         @ (if overwritten cancelled_run \<noteq> 0
            then [ascii ''Overwritten: '' @ str_nat (overwritten cancelled_run)] else [])
         @ [10 # ascii ''Export cancelled by user.'', 10 # ascii ''Location: '' @ ascii ''/tmp/out'']"
    by blast+
  from g have e1: "exported cancelled_run = 2" and e2: "errors cancelled_run = []"
    and e3: "filter (\<lambda>x. \<not> is_removal x) (effects cancelled_run) =
     [Exported body_part1 (ascii ''/tmp/out/Part (1).stl'') MeshRefinementHigh,
      Exported body_part2 (ascii ''/tmp/out/Part (2).stl'') MeshRefinementHigh]"
    and e4: "summary_lines cancelled_run (ascii ''/tmp/out'') =
     [ascii ''Exported: 2'', 10 # ascii ''Export cancelled by user.'',
      10 # ascii ''Location: /tmp/out'']"
    by (simp_all add: tk ow str_nat.simps ascii_def)
  from h2 have n0: "\<not> was_cancelled cancelling_env 0" and n1: "\<not> was_cancelled cancelling_env 1"
    by simp_all
  from h4 have x0: "export_raises cancelling_env 0 = None"
    and x1: "export_raises cancelling_env 1 = None" by simp_all
  from h1 n0 n1 h3 cancelled_run_def x0 x1 c e1 e2 e3 e4 show ?thesis by (intro conjI)
qed

text \<open>
  C5. An exception of one export is caught in the loop: without cancellation every job
  is attempted whatever the exports raise, each job ends up either counted as exported
  or recorded in the error list, and a job that raised is recorded as its body's name,
  a colon and the error text. If exactly one of the \<open>N\<close> exports raises, the summary
  reports \<open>N - 1\<close> exported and one error, that of the body. Whether the execute
  handler ends in its outer \<open>except\<close> does not depend on what the exports raise.
\<close>

theorem C5_export_errors_are_recorded:
  assumes "\<forall>i<length jobs. \<not> was_cancelled e i" "r = run_batch e q jobs fs"
  shows "\<not> cancelled r \<and>
    exported r + length (errors r) = length jobs \<and>
    length (filter (\<lambda>x. \<not> is_removal x) (effects r)) = length jobs \<and>
    (\<forall>j<length jobs. \<forall>ex. export_raises e j = Some ex \<longrightarrow>
       body_name (fst (jobs ! j)) @ ascii '': '' @ ex \<in> set (errors r)) \<and>
    (\<forall>j<length jobs. \<forall>ex. export_raises e j = Some ex \<and>
         (\<forall>k<length jobs. k \<noteq> j \<longrightarrow> export_raises e k = None) \<longrightarrow>
       exported r = length jobs - 1 \<and>
       errors r = [body_name (fst (jobs ! j)) @ ascii '': '' @ ex] \<and>
       summary_lines r dir =
         [ascii ''Exported: '' @ str_nat (length jobs - 1)]
         @ (if overwritten r \<noteq> 0 then [ascii ''Overwritten: '' @ str_nat (overwritten r)] else [])
         @ [ascii ''Errors:   '' @ str_nat 1,
            [32, 32, 8226, 32] @ body_name (fst (jobs ! j)) @ ascii '': '' @ ex,
            10 # ascii ''Location: '' @ dir]) \<and>
    (\<forall>x d w err. fst (on_execute (e\<lparr>export_raises := x\<rparr>) d w) = Trace err \<longleftrightarrow>
       fst (on_execute e d w) = Trace err)"
proof -
  let ?p1 = "remove_existing (remove_fails e) jobs (new_batch fs)"
  have r: "r = export_all e q 0 jobs ?p1" using assms(2) by (simp add: run_batch_def)
  have nc: "\<forall>k<length jobs. \<not> was_cancelled e (0 + k)" using assms(1) by simp
  from export_all_processed [OF nc, of q ?p1]
  have cnt: "exported r + length (errors r) = length jobs"
    and cc: "\<not> cancelled r"
    and le: "length (effects r) = length (effects ?p1) + length jobs"
    unfolding r by (simp_all add: cleanup_state)
  from export_all_effects [of e q 0 jobs ?p1] obtain new where
    new: "effects r = effects ?p1 @ new" "\<forall>x\<in>set new. \<not> is_removal x"
    unfolding r by blast
  from cleanup_effects [of "remove_fails e" jobs fs]
  have rem: "\<forall>x\<in>set (effects ?p1). is_removal x" by (rule conjunct1)
  have "filter (\<lambda>x. \<not> is_removal x) (effects r) = new"
    unfolding new(1) using rem new(2) by (rule filter_exports)
  moreover have "length new = length jobs" using le new(1) by simp
  ultimately have fl: "length (filter (\<lambda>x. \<not> is_removal x) (effects r)) = length jobs" by simp
  have rec: "\<forall>j<length jobs. \<forall>ex. export_raises e j = Some ex \<longrightarrow>
       body_name (fst (jobs ! j)) @ ascii '': '' @ ex \<in> set (errors r)"
  proof (intro allI impI)
    fix j ex assume "j < length jobs" "export_raises e j = Some ex"
    then have "export_raises e (0 + j) = Some ex" by simp
    from export_all_recorded [OF nc \<open>j < length jobs\<close> this, of q ?p1]
    show "body_name (fst (jobs ! j)) @ ascii '': '' @ ex \<in> set (errors r)" unfolding r .
  qed
  have one: "\<forall>j<length jobs. \<forall>ex. export_raises e j = Some ex \<and>
         (\<forall>k<length jobs. k \<noteq> j \<longrightarrow> export_raises e k = None) \<longrightarrow>
       exported r = length jobs - 1 \<and>
       errors r = [body_name (fst (jobs ! j)) @ ascii '': '' @ ex] \<and>
       summary_lines r dir =
         [ascii ''Exported: '' @ str_nat (length jobs - 1)]
         @ (if overwritten r \<noteq> 0 then [ascii ''Overwritten: '' @ str_nat (overwritten r)] else [])
         @ [ascii ''Errors:   '' @ str_nat 1,
            [32, 32, 8226, 32] @ body_name (fst (jobs ! j)) @ ascii '': '' @ ex,
            10 # ascii ''Location: '' @ dir]"
  proof (intro allI impI, elim conjE)
    fix j ex assume j: "j < length jobs" and ex: "export_raises e j = Some ex"
      and others: "\<forall>k<length jobs. k \<noteq> j \<longrightarrow> export_raises e k = None"
    from export_one_fails [OF assms(1) j ex others, of ?p1 q]
    have e1: "exported r = length jobs - 1"
      and e2: "errors r = [body_name (fst (jobs ! j)) @ ascii '': '' @ ex]"
      unfolding r by (simp_all add: cleanup_state)
    from e1 e2 cc have "summary_lines r dir =
         [ascii ''Exported: '' @ str_nat (length jobs - 1)]
         @ (if overwritten r \<noteq> 0 then [ascii ''Overwritten: '' @ str_nat (overwritten r)] else [])
         @ [ascii ''Errors:   '' @ str_nat 1,
            [32, 32, 8226, 32] @ body_name (fst (jobs ! j)) @ ascii '': '' @ ex,
            10 # ascii ''Location: '' @ dir]"
      by (simp add: summary_lines_def)
    with e1 e2 show "exported r = length jobs - 1 \<and>
       errors r = [body_name (fst (jobs ! j)) @ ascii '': '' @ ex] \<and>
       summary_lines r dir =
         [ascii ''Exported: '' @ str_nat (length jobs - 1)]
         @ (if overwritten r \<noteq> 0 then [ascii ''Overwritten: '' @ str_nat (overwritten r)] else [])
         @ [ascii ''Errors:   '' @ str_nat 1,
            [32, 32, 8226, 32] @ body_name (fst (jobs ! j)) @ ascii '': '' @ ex,
            10 # ascii ''Location: '' @ dir]"
      by (intro conjI)
  qed
  have esc: "\<forall>x d w err. fst (on_execute (e\<lparr>export_raises := x\<rparr>) d w) = Trace err \<longleftrightarrow>
       fst (on_execute e d w) = Trace err"
    by (intro allI) (rule on_execute_trace_independent)
  from cc cnt fl rec one esc show ?thesis by (intro conjI)
qed

theorem C5_witness:
  "\<not> was_cancelled failing_env 0 \<and> \<not> was_cancelled failing_env 1 \<and>
   \<not> was_cancelled failing_env 2 \<and> length three_jobs = 3 \<and>
   failed_run = run_batch failing_env MeshRefinementHigh three_jobs {} \<and>
   export_raises failing_env 0 = None \<and>
   export_raises failing_env 1 = Some (ascii ''disk full'') \<and>
   export_raises failing_env 2 = None \<and>
   \<not> cancelled failed_run \<and> exported failed_run = 2 \<and>
   errors failed_run = [ascii ''Part: disk full''] \<and>
   length (filter (\<lambda>x. \<not> is_removal x) (effects failed_run)) = 3 \<and>
   summary_lines failed_run (ascii ''/tmp/out'') =
     [ascii ''Exported: 2'', ascii ''Errors:   1'',
      [32, 32, 8226, 32] @ ascii ''Part: disk full'', 10 # ascii ''Location: /tmp/out'']"
proof -
  have l: "length three_jobs = 3" by (simp add: three_jobs_def)
  have h1: "\<forall>i<length three_jobs. \<not> was_cancelled failing_env i"
    by (simp add: failing_env_def calm_env_def)
  have x1: "export_raises failing_env 1 = Some (ascii ''disk full'')"
    by (simp add: failing_env_def calm_env_def)
  have xo: "\<forall>k<length three_jobs. k \<noteq> 1 \<longrightarrow> export_raises failing_env k = None"
    by (simp add: failing_env_def calm_env_def)
  note t = C5_export_errors_are_recorded [OF h1 failed_run_def, of "ascii ''/tmp/out''"]
  have ow: "overwritten failed_run = 0"
    by (simp add: failed_run_def run_batch_def export_all_kept cleanup_state)
  have nm: "body_name (fst (three_jobs ! Suc 0)) = ascii ''Part''"
    by (simp add: three_jobs_def body_part2_def)
  from t have c: "\<not> cancelled failed_run"
    and n: "length (filter (\<lambda>x. \<not> is_removal x) (effects failed_run)) = length three_jobs"
    by blast+
  from t have "\<forall>j<length three_jobs. \<forall>ex. export_raises failing_env j = Some ex \<and>
         (\<forall>k<length three_jobs. k \<noteq> j \<longrightarrow> export_raises failing_env k = None) \<longrightarrow>
       exported failed_run = length three_jobs - 1 \<and>
       errors failed_run = [body_name (fst (three_jobs ! j)) @ ascii '': '' @ ex] \<and>
       summary_lines failed_run (ascii ''/tmp/out'') =
         [ascii ''Exported: '' @ str_nat (length three_jobs - 1)]
         @ (if overwritten failed_run \<noteq> 0
            then [ascii ''Overwritten: '' @ str_nat (overwritten failed_run)] else [])
         @ [ascii ''Errors:   '' @ str_nat 1,
            [32, 32, 8226, 32] @ body_name (fst (three_jobs ! j)) @ ascii '': '' @ ex,
            10 # ascii ''Location: '' @ ascii ''/tmp/out'']"
    by blast
  with x1 xo l have g: "exported failed_run = length three_jobs - 1 \<and>
       errors failed_run = [body_name (fst (three_jobs ! 1)) @ ascii '': '' @ ascii ''disk full''] \<and>
       summary_lines failed_run (ascii ''/tmp/out'') =
         [ascii ''Exported: '' @ str_nat (length three_jobs - 1)]
         @ (if overwritten failed_run \<noteq> 0
            then [ascii ''Overwritten: '' @ str_nat (overwritten failed_run)] else [])
         @ [ascii ''Errors:   '' @ str_nat 1,
            [32, 32, 8226, 32] @ body_name (fst (three_jobs ! 1)) @ ascii '': '' @ ascii ''disk full'',
            10 # ascii ''Location: '' @ ascii ''/tmp/out'']"
    by (metis one_less_numeral_iff semiring_norm(77))
  from g have e1: "exported failed_run = 2"
    and e2: "errors failed_run = [ascii ''Part: disk full'']"
    and e4: "summary_lines failed_run (ascii ''/tmp/out'') =
     [ascii ''Exported: 2'', ascii ''Errors:   1'',
      [32, 32, 8226, 32] @ ascii ''Part: disk full'', 10 # ascii ''Location: /tmp/out'']"
    by (simp_all add: l nm ow str_nat.simps ascii_def)
  from h1 l have n0: "\<not> was_cancelled failing_env 0" and n1: "\<not> was_cancelled failing_env 1"
    and n2: "\<not> was_cancelled failing_env 2" by simp_all
  from xo l have x0: "export_raises failing_env 0 = None"
    and x2: "export_raises failing_env 2 = None" by simp_all
  from n l have n': "length (filter (\<lambda>x. \<not> is_removal x) (effects failed_run)) = 3" by simp
  from n0 n1 n2 l failed_run_def x0 x1 x2 c e1 e2 n' e4 show ?thesis by (intro conjI)
qed

end
